theory Spec2Isabelle
  imports Complex_Main "HOL-Library.Char_ord" "HOL-Library.List_Lexorder" "HOL-Library.AList"
begin

unbundle bit_operations_syntax

section \<open>Library functions used by \<^verbatim>\<open>realtime_sync.py\<close>\<close>

text \<open>
  Paths are Python strings, here \<^typ>\<open>string\<close>. The program runs on Linux (it uses
  inotify), so \<^verbatim>\<open>os.sep\<close> is \<^verbatim>\<open>/\<close> and the functions of \<^verbatim>\<open>os.path\<close> are those
  of \<^verbatim>\<open>posixpath\<close>. The order on \<^typ>\<open>string\<close> is the lexicographic order on
  character codes, as Python's comparison of \<^verbatim>\<open>str\<close> is.
\<close>

definition startswith :: "string \<Rightarrow> string \<Rightarrow> bool" where
  "startswith s p = (take (length p) s = p)"

definition endswith :: "string \<Rightarrow> string \<Rightarrow> bool" where
  "endswith s p = (length p \<le> length s \<and> drop (length s - length p) s = p)"

text \<open>\<^verbatim>\<open>s.replace(a, b)\<close> for single characters.\<close>

definition replace_char :: "char \<Rightarrow> char \<Rightarrow> string \<Rightarrow> string" where
  "replace_char a b s = map (\<lambda>c. if c = a then b else c) s"

text \<open>\<^verbatim>\<open>os.path.join(a, b)\<close> with two arguments.\<close>

definition path_join :: "string \<Rightarrow> string \<Rightarrow> string" where
  "path_join a b =
     (if startswith b ''/'' then b
      else if a = [] \<or> endswith a ''/'' then a @ b
      else a @ ''/'' @ b)"

text \<open>\<^verbatim>\<open>os.path.basename(p)\<close>: what follows the last slash.\<close>

definition basename :: "string \<Rightarrow> string" where
  "basename p = rev (takeWhile (\<lambda>c. c \<noteq> CHR ''/'') (rev p))"

text \<open>
  \<^verbatim>\<open>os.path.splitext(p)[1]\<close> for a name without a slash: the text from the last dot on,
  when a character other than a dot comes before that dot; the empty string otherwise.
\<close>

definition splitext_ext :: "string \<Rightarrow> string" where
  "splitext_ext p =
     (let ext = rev (takeWhile (\<lambda>c. c \<noteq> CHR ''.'') (rev p));
          stem = take (length p - length ext - 1) p
      in if CHR ''.'' \<in> set p \<and> (\<exists>c \<in> set stem. c \<noteq> CHR ''.'')
         then CHR ''.'' # ext else [])"

text \<open>\<^verbatim>\<open>str.lower()\<close> on ASCII letters.\<close>

definition lower_char :: "char \<Rightarrow> char" where
  "lower_char c =
     (if CHR ''A'' \<le> c \<and> c \<le> CHR ''Z'' then char_of (of_char c + (32::nat)) else c)"

definition lower :: "string \<Rightarrow> string" where
  "lower s = map lower_char s"

subsection \<open>Shell patterns: \<^verbatim>\<open>fnmatch.fnmatch\<close>\<close>

text \<open>
  A pattern is a sequence of items: \<^verbatim>\<open>*\<close> (any text), \<^verbatim>\<open>?\<close> (any one character),
  a bracket expression \<^verbatim>\<open>[seq]\<close> or \<^verbatim>\<open>[!seq]\<close> made of single characters and ranges
  \<^verbatim>\<open>a-b\<close>, and literal characters. A \<^verbatim>\<open>[\<close> with no closing \<^verbatim>\<open>]\<close> is a literal.
  On POSIX \<^verbatim>\<open>fnmatch\<close> folds no case, and the whole name must match.
\<close>

datatype glob_item =
    Star
  | AnyChar
  | Lit char
  | Bracket bool "(char \<times> char) list"

fun bracket_ranges :: "string \<Rightarrow> (char \<times> char) list" where
  "bracket_ranges (a # m # b # rest) =
     (if m = CHR ''-'' then (a, b) # bracket_ranges rest
      else (a, a) # bracket_ranges (m # b # rest))"
| "bracket_ranges (a # rest) = (a, a) # bracket_ranges rest"
| "bracket_ranges [] = []"

text \<open>
  The text after a \<^verbatim>\<open>[\<close>: an optional \<^verbatim>\<open>!\<close>, an optional \<^verbatim>\<open>]\<close> that stands for
  itself, then everything up to the next \<^verbatim>\<open>]\<close>. The result is the negation flag, the
  members and the rest of the pattern, or \<open>None\<close> when no \<^verbatim>\<open>]\<close> closes the expression.
\<close>

definition split_bracket :: "string \<Rightarrow> (bool \<times> string \<times> string) option" where
  "split_bracket p =
     (let neg = startswith p ''!'';
          p1 = (if neg then drop 1 p else p);
          lead = (if startswith p1 '']'' then '']'' else []);
          p2 = drop (length lead) p1;
          body = takeWhile (\<lambda>c. c \<noteq> CHR '']'') p2;
          rest = dropWhile (\<lambda>c. c \<noteq> CHR '']'') p2
      in if rest = [] then None else Some (neg, lead @ body, drop 1 rest))"

lemma split_bracket_shorter:
  "split_bracket p = Some (neg, members, rest) \<Longrightarrow> length rest < Suc (length p)"
proof -
  assume h: "split_bracket p = Some (neg, members, rest)"
  define p1 where "p1 = (if startswith p ''!'' then drop 1 p else p)"
  define p2 where "p2 = drop (length (if startswith p1 '']'' then '']'' else [])) p1"
  from h have "rest = drop 1 (dropWhile (\<lambda>c. c \<noteq> CHR '']'') p2)"
    by (auto simp: split_bracket_def Let_def p1_def p2_def split: if_splits)
  moreover have "length (dropWhile (\<lambda>c. c \<noteq> CHR '']'') p2) \<le> length p2"
    by (rule length_dropWhile_le)
  moreover have "length p2 \<le> length p1" by (simp add: p2_def)
  moreover have "length p1 \<le> length p" by (simp add: p1_def)
  ultimately show ?thesis by simp
qed

function translate :: "string \<Rightarrow> glob_item list" where
  "translate [] = []"
| "translate (c # p) =
     (if c = CHR ''*'' then Star # translate p
      else if c = CHR ''?'' then AnyChar # translate p
      else if c = CHR ''['' then
        (case split_bracket p of
           None \<Rightarrow> Lit c # translate p
         | Some (neg, members, rest) \<Rightarrow> Bracket neg (bracket_ranges members) # translate rest)
      else Lit c # translate p)"
  by pat_completeness auto
termination
  by (relation "measure length") (auto dest: split_bracket_shorter)

definition in_bracket :: "bool \<Rightarrow> (char \<times> char) list \<Rightarrow> char \<Rightarrow> bool" where
  "in_bracket neg ranges c = (neg \<noteq> (\<exists>(a, b) \<in> set ranges. a \<le> c \<and> c \<le> b))"

fun glob_match :: "glob_item list \<Rightarrow> string \<Rightarrow> bool" where
  "glob_match [] s = (s = [])"
| "glob_match (Star # items) [] = glob_match items []"
| "glob_match (Star # items) (c # s) =
     (glob_match items (c # s) \<or> glob_match (Star # items) s)"
| "glob_match (AnyChar # items) [] = False"
| "glob_match (AnyChar # items) (c # s) = glob_match items s"
| "glob_match (Lit a # items) [] = False"
| "glob_match (Lit a # items) (c # s) = (a = c \<and> glob_match items s)"
| "glob_match (Bracket neg ranges # items) [] = False"
| "glob_match (Bracket neg ranges # items) (c # s) =
     (in_bracket neg ranges c \<and> glob_match items s)"

definition fnmatch :: "string \<Rightarrow> string \<Rightarrow> bool" where
  "fnmatch name pat = glob_match (translate pat) name"

section \<open>The path filter: \<^verbatim>\<open>is_excluded\<close>\<close>

definition SOURCE_CODE_EXTENSIONS :: "string list" where
  "SOURCE_CODE_EXTENSIONS =
     [''.py'', ''.js'', ''.html'', ''.css'', ''.scss'', ''.java'', ''.c'', ''.cpp'', ''.h'',
      ''.hpp'', ''.go'', ''.rs'', ''.php'', ''.rb'', ''.ts'', ''.tsx'', ''.jsx'', ''.json'',
      ''.yml'', ''.yaml'', ''.md'', ''.sh'', ''.xml'', ''.sql'']"

text \<open>
  \<^verbatim>\<open>is_excluded(path, exclude_patterns, source_code_only)\<close>. The function calls
  \<^verbatim>\<open>os.path.isdir(path)\<close>, which asks the local file system, resolving a relative
  path against the current working directory of the process. That answer is the
  parameter \<open>isdir\<close>: the state of the file system as this function sees it.
\<close>

definition is_excluded :: "(string \<Rightarrow> bool) \<Rightarrow> string \<Rightarrow> string list \<Rightarrow> bool \<Rightarrow> bool" where
  "is_excluded isdir path exclude_patterns source_code_only =
     (let base_name = basename path;
          path_to_check = replace_char CHR ''/'' CHR ''/'' path
      in if \<exists>pattern \<in> set exclude_patterns.
              fnmatch path_to_check pattern \<or> fnmatch base_name pattern
         then True
         else if source_code_only then
           (if isdir path then False
            else lower (splitext_ext base_name) \<notin> set SOURCE_CODE_EXTENSIONS)
         else False)"

section \<open>Snapshots and the initial synchronisation\<close>

text \<open>
  A Python \<^verbatim>\<open>dict\<close> keyed by relative path is an association list read with
  \<^const>\<open>map_of\<close>. An entry of \<^verbatim>\<open>local_map\<close> is \<^verbatim>\<open>{'is_dir': True}\<close> for a directory
  and \<^verbatim>\<open>{'mtime': .., 'size': .., 'is_dir': False}\<close> for a file. \<^verbatim>\<open>st_mtime\<close> of
  \<^verbatim>\<open>os.stat\<close> is a float, of which the program only uses \<^verbatim>\<open>int(mtime)\<close>: the
  model keeps it as a rational number and truncates towards zero as \<^verbatim>\<open>int\<close> does.
  An entry of \<^verbatim>\<open>remote_map\<close> is the attribute record of \<^verbatim>\<open>listdir_attr\<close>, whose
  times and sizes are integers.
\<close>

datatype local_entry = LocalDir | LocalFile rat int

fun entry_is_dir :: "local_entry \<Rightarrow> bool" where
  "entry_is_dir LocalDir = True"
| "entry_is_dir (LocalFile mtime sz) = False"

record sftp_attr =
  filename :: string
  st_mode :: nat
  st_size :: int
  st_mtime :: int

type_synonym local_map = "(string \<times> local_entry) list"
type_synonym remote_map = "(string \<times> sftp_attr) list"

text \<open>\<^verbatim>\<open>stat.S_ISDIR(mode)\<close>: \<^verbatim>\<open>(mode & 0o170000) == 0o040000\<close>.\<close>

definition S_ISDIR :: "nat \<Rightarrow> bool" where
  "S_ISDIR mode = (mode AND 61440 = 16384)"

definition py_int :: "rat \<Rightarrow> int" where
  "py_int x = (if 0 \<le> x then \<lfloor>x\<rfloor> else \<lceil>x\<rceil>)"

text \<open>
  A call of the transport. Each carries the root-relative path \<^verbatim>\<open>rel_path\<close> it is
  made for: the arguments the program passes are \<^verbatim>\<open>os.path.join(remote_base, rel_path)\<close>
  with backslashes replaced (and, for \<^verbatim>\<open>put\<close>, the local file of that path).
\<close>

datatype action = Mkdir string | Put string | Remove string | Rmdir string

definition remote_full_path :: "string \<Rightarrow> string \<Rightarrow> string" where
  "remote_full_path remote_base rel_path =
     replace_char CHR 0x5C CHR ''/'' (path_join remote_base rel_path)"

text \<open>Step 3 of \<^verbatim>\<open>perform_initial_sync\<close>: the three sets of paths.\<close>

definition local_paths :: "local_map \<Rightarrow> string set" where
  "local_paths lm = set (map fst lm)"

definition remote_paths :: "remote_map \<Rightarrow> string set" where
  "remote_paths rm = set (map fst rm)"

definition to_upload :: "local_map \<Rightarrow> remote_map \<Rightarrow> string set" where
  "to_upload lm rm = local_paths lm - remote_paths rm"

definition to_delete :: "local_map \<Rightarrow> remote_map \<Rightarrow> string set" where
  "to_delete lm rm = remote_paths rm - local_paths lm"

definition to_check :: "local_map \<Rightarrow> remote_map \<Rightarrow> string set" where
  "to_check lm rm = local_paths lm \<inter> remote_paths rm"

text \<open>
  Step 4, first loop: \<^verbatim>\<open>for rel_path in sorted(list(to_upload))\<close>. Every call is
  wrapped in \<^verbatim>\<open>try/except Exception\<close>, so the loop makes the call of every path
  whatever the earlier calls did. The lookup \<^verbatim>\<open>local_map[rel_path]\<close> cannot fail,
  since the path is a key of the map.
\<close>

definition create_action :: "local_map \<Rightarrow> string \<Rightarrow> action list" where
  "create_action lm rel_path =
     (case map_of lm rel_path of
        None \<Rightarrow> []
      | Some e \<Rightarrow> if entry_is_dir e then [Mkdir rel_path] else [Put rel_path])"

definition create_actions :: "local_map \<Rightarrow> remote_map \<Rightarrow> action list" where
  "create_actions lm rm =
     concat (map (create_action lm) (sorted_list_of_set (to_upload lm rm)))"

text \<open>
  Second loop: \<^verbatim>\<open>for rel_path in to_check\<close>. Python does not fix the order in which
  a set is enumerated; the model enumerates it in ascending order.
\<close>

definition is_modified :: "local_entry \<Rightarrow> sftp_attr \<Rightarrow> bool" where
  "is_modified e a =
     (case e of
        LocalDir \<Rightarrow> False
      | LocalFile mtime sz \<Rightarrow> py_int mtime > st_mtime a + 1 \<or> sz \<noteq> st_size a)"

definition update_action :: "local_map \<Rightarrow> remote_map \<Rightarrow> string \<Rightarrow> action list" where
  "update_action lm rm rel_path =
     (case (map_of lm rel_path, map_of rm rel_path) of
        (Some e, Some a) \<Rightarrow> if is_modified e a then [Put rel_path] else []
      | _ \<Rightarrow> [])"

definition update_actions :: "local_map \<Rightarrow> remote_map \<Rightarrow> action list" where
  "update_actions lm rm =
     concat (map (update_action lm rm) (sorted_list_of_set (to_check lm rm)))"

text \<open>
  Third loop, run when \<^verbatim>\<open>allow_delete\<close> holds:
  \<^verbatim>\<open>for rel_path in sorted(list(to_delete), reverse=True)\<close>.
\<close>

definition delete_action :: "remote_map \<Rightarrow> string \<Rightarrow> action list" where
  "delete_action rm rel_path =
     (case map_of rm rel_path of
        None \<Rightarrow> []
      | Some a \<Rightarrow> if S_ISDIR (st_mode a) then [Rmdir rel_path] else [Remove rel_path])"

definition delete_actions :: "local_map \<Rightarrow> remote_map \<Rightarrow> action list" where
  "delete_actions lm rm =
     concat (map (delete_action rm) (rev (sorted_list_of_set (to_delete lm rm))))"

text \<open>
  The calls \<^verbatim>\<open>perform_initial_sync\<close> makes for the maps built in its steps 1 and 2,
  in the order it makes them, and the number it prints in the message
  \<^verbatim>\<open>Found n extra remote item(s). Deletion is disabled in config.\<close>, if it prints it.
\<close>

definition sync_actions :: "local_map \<Rightarrow> remote_map \<Rightarrow> bool \<Rightarrow> action list" where
  "sync_actions lm rm allow_delete =
     create_actions lm rm @ update_actions lm rm
       @ (if allow_delete then delete_actions lm rm else [])"


text \<open>\<open>x\<close> occurs in \<open>xs\<close> at a position before an occurrence of \<open>y\<close>.\<close>

definition before_in :: "'a \<Rightarrow> 'a \<Rightarrow> 'a list \<Rightarrow> bool" where
  "before_in x y xs = (y \<in> set (drop 1 (dropWhile (\<lambda>z. z \<noteq> x) xs)))"

text \<open>\<open>a\<close> is a slash-delimited ancestor of \<open>b\<close>.\<close>

definition ancestor :: "string \<Rightarrow> string \<Rightarrow> bool" where
  "ancestor a b = (a \<noteq> [] \<and> startswith b (a @ ''/'') \<and> length (a @ ''/'') < length b)"

text \<open>The relative path a call is made for.\<close>

fun path_of :: "action \<Rightarrow> string" where
  "path_of (Mkdir p) = p"
| "path_of (Put p) = p"
| "path_of (Remove p) = p"
| "path_of (Rmdir p) = p"

section \<open>The remote scan: \<^verbatim>\<open>walk_remote\<close>\<close>

text \<open>
  Python exceptions the program can meet. \<^verbatim>\<open>FileNotFoundError\<close> and
  \<^verbatim>\<open>PermissionError\<close> are subclasses of \<^verbatim>\<open>OSError\<close>; \<open>OSError\<close> stands for any
  other one.
\<close>

datatype exn =
    FileNotFoundError
  | PermissionError
  | OSError
  | SSHException
  | EOFError
  | ValueError
  | KeyboardInterrupt
  | RuntimeError

text \<open>
  The body of the \<^verbatim>\<open>for attr in sftp.listdir_attr(..)\<close> loop, on the pair of
  \<^verbatim>\<open>remote_map\<close> and \<^verbatim>\<open>stack\<close>. The stack is a Python list: \<^verbatim>\<open>append\<close> adds at the
  end and \<^verbatim>\<open>pop\<close> takes the last element. \<^verbatim>\<open>remote_map[k] = v\<close> keeps the place of a
  key that is already there, as \<^const>\<open>AList.update\<close> does.
\<close>

definition scan_entry ::
  "(string \<Rightarrow> bool) \<Rightarrow> string list \<Rightarrow> bool \<Rightarrow> string \<Rightarrow> remote_map \<times> string list \<Rightarrow> sftp_attr
     \<Rightarrow> remote_map \<times> string list" where
  "scan_entry isdir exclude_patterns source_code_only current_rel_path acc attr =
     (let rel_item_path = replace_char CHR 0x5C CHR ''/'' (path_join current_rel_path (filename attr));
          is_dir = S_ISDIR (st_mode attr);
          exclude_check_path = (if is_dir then rel_item_path @ ''/'' else rel_item_path)
      in if is_excluded isdir exclude_check_path exclude_patterns (source_code_only \<and> \<not> is_dir)
         then acc
         else (AList.update rel_item_path attr (fst acc),
               if is_dir then snd acc @ [rel_item_path] else snd acc))"

text \<open>
  The \<^verbatim>\<open>while stack\<close> loop. \<open>listdir_attr\<close> is the remote side: the listing of a
  directory, or the exception the call raises. Only \<^verbatim>\<open>FileNotFoundError\<close> is caught;
  any other exception leaves \<^verbatim>\<open>walk_remote\<close>. The loop need not end (the remote tree is
  whatever the server answers), so the result is an \<open>option\<close>: \<open>None\<close> when it runs for ever.
\<close>

partial_function (option) walk_loop ::
  "(string \<Rightarrow> exn + sftp_attr list) \<Rightarrow> (string \<Rightarrow> bool) \<Rightarrow> string \<Rightarrow> string list \<Rightarrow> bool
     \<Rightarrow> string list \<Rightarrow> remote_map \<Rightarrow> (exn + remote_map) option" where
  "walk_loop listdir_attr isdir remote_path exclude_patterns source_code_only stack remote_map =
     (if stack = [] then Some (Inr remote_map)
      else
        (let current_rel_path = last stack;
             stack1 = butlast stack;
             current_remote_path = replace_char CHR 0x5C CHR ''/'' (path_join remote_path current_rel_path)
         in case listdir_attr current_remote_path of
              Inl e \<Rightarrow>
                if e = FileNotFoundError
                then walk_loop listdir_attr isdir remote_path exclude_patterns source_code_only
                       stack1 remote_map
                else Some (Inl e)
            | Inr attrs \<Rightarrow>
                (case foldl (scan_entry isdir exclude_patterns source_code_only current_rel_path)
                        (remote_map, stack1) attrs of
                   (remote_map', stack') \<Rightarrow>
                     walk_loop listdir_attr isdir remote_path exclude_patterns source_code_only
                       stack' remote_map')))"

declare walk_loop.simps [code]

definition walk_remote ::
  "(string \<Rightarrow> exn + sftp_attr list) \<Rightarrow> (string \<Rightarrow> bool) \<Rightarrow> string \<Rightarrow> string list \<Rightarrow> bool
     \<Rightarrow> (exn + remote_map) option" where
  "walk_remote listdir_attr isdir remote_path exclude_patterns source_code_only =
     walk_loop listdir_attr isdir remote_path exclude_patterns source_code_only [[]] []"


subsection \<open>Remote directories and plain names\<close>

text \<open>
  The key under which an entry \<open>name\<close> of the directory \<open>current_rel_path\<close> is recorded
  (\<^verbatim>\<open>rel_item_path\<close> in \<^verbatim>\<open>walk_remote\<close>).
\<close>

definition rel_item_path :: "string \<Rightarrow> string \<Rightarrow> string" where
  "rel_item_path current_rel_path name =
     replace_char CHR 0x5C CHR ''/'' (path_join current_rel_path name)"

text \<open>
  A name as a listing of a file system gives it: not empty, with no slash and no
  backslash. In a listing every name is plain and no name occurs twice.
\<close>

definition plain_name :: "string \<Rightarrow> bool" where
  "plain_name n = (n \<noteq> [] \<and> CHR ''/'' \<notin> set n \<and> CHR 0x5C \<notin> set n)"

definition plain_listings :: "(string \<Rightarrow> exn + sftp_attr list) \<Rightarrow> bool" where
  "plain_listings ls =
     (\<forall>p attrs. ls p = Inr attrs \<longrightarrow>
        distinct (map filename attrs) \<and> (\<forall>a \<in> set attrs. plain_name (filename a)))"

text \<open>
  A path whose keys are its own: it has no backslash and does not end in a slash.
\<close>

definition plain_path :: "string \<Rightarrow> bool" where
  "plain_path p = (CHR 0x5C \<notin> set p \<and> (p = [] \<or> last p \<noteq> CHR ''/''))"

text \<open>
  The directories of the remote tree below \<open>base\<close>, by their relative paths: the root
  (the empty path), and every directory entry of the listing of a remote directory.
\<close>

inductive remote_dir :: "(string \<Rightarrow> exn + sftp_attr list) \<Rightarrow> string \<Rightarrow> string \<Rightarrow> bool"
  for ls :: "string \<Rightarrow> exn + sftp_attr list" and base :: string where
  remote_root: "remote_dir ls base []"
| remote_child:
    "remote_dir ls base cur \<Longrightarrow> ls (remote_full_path base cur) = Inr attrs \<Longrightarrow> a \<in> set attrs \<Longrightarrow>
     S_ISDIR (st_mode a) \<Longrightarrow> remote_dir ls base (rel_item_path cur (filename a))"

text \<open>
  The directories the scan enters: the root, and every directory entry the filter does
  not exclude in the listing of a directory the scan enters. An entry is recorded when
  it is in the listing of such a directory and the filter does not exclude it.
\<close>

inductive kept_dir ::
  "(string \<Rightarrow> exn + sftp_attr list) \<Rightarrow> (string \<Rightarrow> bool) \<Rightarrow> string \<Rightarrow> string list \<Rightarrow> string \<Rightarrow> bool"
  for ls :: "string \<Rightarrow> exn + sftp_attr list" and isdir :: "string \<Rightarrow> bool" and base :: string
    and pats :: "string list" where
  kept_root: "kept_dir ls isdir base pats []"
| kept_child:
    "kept_dir ls isdir base pats cur \<Longrightarrow> ls (remote_full_path base cur) = Inr attrs \<Longrightarrow>
     a \<in> set attrs \<Longrightarrow> S_ISDIR (st_mode a) \<Longrightarrow>
     \<not> is_excluded isdir (rel_item_path cur (filename a) @ ''/'') pats False \<Longrightarrow>
     kept_dir ls isdir base pats (rel_item_path cur (filename a))"

definition recorded ::
  "(string \<Rightarrow> exn + sftp_attr list) \<Rightarrow> (string \<Rightarrow> bool) \<Rightarrow> string \<Rightarrow> string list \<Rightarrow> bool
     \<Rightarrow> string \<Rightarrow> bool" where
  "recorded ls isdir base pats sco k =
     (\<exists>cur attrs a. kept_dir ls isdir base pats cur \<and> ls (remote_full_path base cur) = Inr attrs
        \<and> a \<in> set attrs \<and> k = rel_item_path cur (filename a)
        \<and> \<not> is_excluded isdir
              (if S_ISDIR (st_mode a) then k @ ''/'' else k) pats (sco \<and> \<not> S_ISDIR (st_mode a)))"

text \<open>The invariant of the \<^verbatim>\<open>while\<close> loop of \<^verbatim>\<open>walk_remote\<close>.\<close>

definition walk_inv ::
  "(string \<Rightarrow> exn + sftp_attr list) \<Rightarrow> (string \<Rightarrow> bool) \<Rightarrow> string \<Rightarrow> string list \<Rightarrow> bool
     \<Rightarrow> string list \<Rightarrow> remote_map \<Rightarrow> bool" where
  "walk_inv ls isdir base pats sco stack rm =
     ((\<forall>s \<in> set stack. kept_dir ls isdir base pats s)
      \<and> (\<forall>k \<in> fst ` set rm. recorded ls isdir base pats sco k))"

section \<open>The worker: watches and live events\<close>

subsection \<open>\<^verbatim>\<open>os.path.relpath\<close>\<close>

text \<open>\<^verbatim>\<open>s.split(c)\<close>.\<close>

fun split_on :: "char \<Rightarrow> string \<Rightarrow> string list" where
  "split_on c [] = [[]]"
| "split_on c (x # xs) =
     (if x = c then [] # split_on c xs
      else (case split_on c xs of [] \<Rightarrow> [[x]] | y # ys \<Rightarrow> (x # y) # ys))"

text \<open>
  The components of \<^verbatim>\<open>os.path.normpath\<close> of an absolute path: empty components and
  \<^verbatim>\<open>.\<close> are dropped, \<^verbatim>\<open>..\<close> removes the component before it, if there is one.
\<close>

fun normpath_comps :: "string list \<Rightarrow> string list \<Rightarrow> string list" where
  "normpath_comps new_comps [] = new_comps"
| "normpath_comps new_comps (part # comps) =
     (if part = [] \<or> part = ''.'' then normpath_comps new_comps comps
      else if part = ''..'' then normpath_comps (butlast new_comps) comps
      else normpath_comps (new_comps @ [part]) comps)"

text \<open>
  The non-empty components of \<^verbatim>\<open>os.path.abspath(p)\<close>, where \<open>cwd\<close> is the absolute
  path \<^verbatim>\<open>os.getcwd()\<close> returns.
\<close>

definition abspath_comps :: "string \<Rightarrow> string \<Rightarrow> string list" where
  "abspath_comps cwd p =
     normpath_comps [] (split_on CHR ''/'' (if startswith p ''/'' then p else path_join cwd p))"

fun common_prefix_length :: "'a list \<Rightarrow> 'a list \<Rightarrow> nat" where
  "common_prefix_length (x # xs) (y # ys) =
     (if x = y then Suc (common_prefix_length xs ys) else 0)"
| "common_prefix_length xs ys = 0"

text \<open>\<^verbatim>\<open>os.path.relpath(path, start)\<close>; it raises \<^verbatim>\<open>ValueError\<close> on the empty path.\<close>

definition relpath :: "string \<Rightarrow> string \<Rightarrow> string \<Rightarrow> exn + string" where
  "relpath cwd path start =
     (if path = [] then Inl ValueError
      else
        (let start_list = abspath_comps cwd start;
             path_list = abspath_comps cwd path;
             i = common_prefix_length start_list path_list;
             rel_list = replicate (length start_list - i) ''..'' @ drop i path_list
         in case rel_list of
              [] \<Rightarrow> Inr ''.''
            | c # cs \<Rightarrow> Inr (foldl path_join c cs)))"

subsection \<open>Configuration, environment and state\<close>

text \<open>
  The entries of \<^verbatim>\<open>config\<close> the worker reads; \<^verbatim>\<open>config.get(key, default)\<close> is the
  value of the field.
\<close>

record config =
  cfg_local_path :: string
  cfg_remote_path :: string
  cfg_exclude_patterns :: "string list"
  cfg_source_code_only :: bool
  cfg_initial_sync_enabled :: bool
  cfg_initial_sync_delete :: bool

text \<open>
  The local side, as the worker sees it: the answers of \<^verbatim>\<open>os.path.isdir\<close>,
  \<^verbatim>\<open>os.path.exists\<close>, \<^verbatim>\<open>os.listdir\<close>, \<^verbatim>\<open>os.getcwd\<close> and \<^verbatim>\<open>os.path.expanduser\<close>,
  and \<^verbatim>\<open>inotify.add_watch\<close>, which returns a watch descriptor or raises, and changes
  the state \<open>'w\<close> of the inotify instance.
\<close>

record 'w os_env =
  os_isdir :: "string \<Rightarrow> bool"
  os_exists :: "string \<Rightarrow> bool"
  os_listdir :: "string \<Rightarrow> exn + string list"
  os_getcwd :: string
  os_expanduser :: "string \<Rightarrow> string"
  inotify_add_watch :: "'w \<Rightarrow> string \<Rightarrow> (exn + nat) \<times> 'w"

text \<open>The worker's mutable state: the dictionary \<^verbatim>\<open>wd_map\<close>, an association list as the
  snapshots are, and the inotify instance.\<close>

record 'w worker_state =
  wd_map :: "(nat \<times> string) list"
  inotify :: 'w

text \<open>
  The transport session: the listing of a remote directory, and the outcome of a call
  (\<open>None\<close> when it succeeds, the exception it raises otherwise).
\<close>

record sftp_session =
  sftp_listdir_attr :: "string \<Rightarrow> exn + sftp_attr list"
  sftp_call :: "action \<Rightarrow> exn option"



text \<open>An inotify event and the flags of its mask.\<close>

record inotify_event =
  ev_wd :: nat
  ev_mask :: nat
  ev_name :: string

definition IN_MODIFY :: nat where "IN_MODIFY = 0x2"
definition IN_MOVED_FROM :: nat where "IN_MOVED_FROM = 0x40"
definition IN_MOVED_TO :: nat where "IN_MOVED_TO = 0x80"
definition IN_CREATE :: nat where "IN_CREATE = 0x100"
definition IN_DELETE :: nat where "IN_DELETE = 0x200"
definition IN_ISDIR :: nat where "IN_ISDIR = 0x40000000"

subsection \<open>\<^verbatim>\<open>add_watch_recursively\<close>\<close>

text \<open>
  The function calls itself for every subdirectory; \<open>fuel\<close> bounds the depth of the
  calls, and the result is \<open>None\<close> when the bound is reached. \<open>Some (Inl e)\<close> is an
  exception that leaves the call: only \<^verbatim>\<open>relpath\<close> is outside the \<^verbatim>\<open>try\<close> block, and
  it raises before the state is touched. \<open>watch_children\<close> is the \<^verbatim>\<open>for item\<close> loop, which
  runs inside the \<^verbatim>\<open>try\<close> block of its directory: an exception of a nested call is caught
  there and ends the loop.
\<close>

fun add_watch_recursively ::
  "nat \<Rightarrow> 'w os_env \<Rightarrow> config \<Rightarrow> string \<Rightarrow> 'w worker_state \<Rightarrow> (exn + 'w worker_state) option"
and watch_children ::
  "nat \<Rightarrow> 'w os_env \<Rightarrow> config \<Rightarrow> string \<Rightarrow> string list \<Rightarrow> 'w worker_state
     \<Rightarrow> (exn + 'w worker_state) option" where
  "add_watch_recursively 0 env cfg path st = None"
| "add_watch_recursively (Suc fuel) env cfg path st =
     (if \<not> os_exists env path then Some (Inr st)
      else
        (case relpath (os_getcwd env) path (cfg_local_path cfg) of
           Inl e \<Rightarrow> Some (Inl e)
         | Inr r \<Rightarrow>
             (let rel_path_from_base = (if r = ''.'' then [] else r)
              in if is_excluded (os_isdir env) (rel_path_from_base @ ''/'') (cfg_exclude_patterns cfg)
                      (\<not> os_isdir env path \<and> cfg_source_code_only cfg)
                 then Some (Inr st)
                 else
                   (case inotify_add_watch env (inotify st) path of
                      (Inl e, w) \<Rightarrow> Some (Inr (st\<lparr>inotify := w\<rparr>))
                    | (Inr wd, w) \<Rightarrow>
                        (let st1 = st\<lparr>wd_map := AList.update wd path (wd_map st), inotify := w\<rparr>
                         in case os_listdir env path of
                              Inl e \<Rightarrow> Some (Inr st1)
                            | Inr items \<Rightarrow> watch_children fuel env cfg path items st1)))))"
| "watch_children fuel env cfg path [] st = Some (Inr st)"
| "watch_children fuel env cfg path (item # items) st =
     (let child_path = path_join path item
      in if os_isdir env child_path then
           (case add_watch_recursively fuel env cfg child_path st of
              None \<Rightarrow> None
            | Some (Inl e) \<Rightarrow> Some (Inr st)
            | Some (Inr st1) \<Rightarrow> watch_children fuel env cfg path items st1)
         else watch_children fuel env cfg path items st)"

subsection \<open>The event loop of \<^verbatim>\<open>sync_worker\<close>\<close>

text \<open>
  The body of \<^verbatim>\<open>for event in inotify.read(timeout=1)\<close> for one event. The result is the
  exception that leaves the body, if any, the transport calls the body made (a call that
  raises included), and the state. No call of the body is inside a \<^verbatim>\<open>try\<close> block of its
  own.
\<close>

definition transport_call ::
  "sftp_session \<Rightarrow> action \<Rightarrow> 'w worker_state \<Rightarrow> (exn option \<times> action list \<times> 'w worker_state) option" where
  "transport_call sftp a st = Some (sftp_call sftp a, [a], st)"

definition handle_event ::
  "nat \<Rightarrow> 'w os_env \<Rightarrow> sftp_session \<Rightarrow> config \<Rightarrow> string \<Rightarrow> inotify_event \<Rightarrow> 'w worker_state
     \<Rightarrow> (exn option \<times> action list \<times> 'w worker_state) option" where
  "handle_event fuel env sftp cfg local_path event st =
     (case map_of (wd_map st) (ev_wd event) of
        None \<Rightarrow> Some (None, [], st)
      | Some parent_dir_path \<Rightarrow>
          (let event_path = path_join parent_dir_path (ev_name event)
           in case relpath (os_getcwd env) event_path local_path of
                Inl e \<Rightarrow> Some (Some e, [], st)
              | Inr rel_path \<Rightarrow>
                  (let exclude_path_check =
                         rel_path @ (if ev_mask event AND IN_ISDIR \<noteq> 0 then ''/'' else [])
                   in if is_excluded (os_isdir env) exclude_path_check (cfg_exclude_patterns cfg)
                           (cfg_source_code_only cfg)
                      then Some (None, [], st)
                      else if ev_mask event AND (IN_CREATE OR IN_MOVED_TO) \<noteq> 0 then
                        (if ev_mask event AND IN_ISDIR \<noteq> 0 then
                           (case sftp_call sftp (Mkdir rel_path) of
                              Some e \<Rightarrow> Some (Some e, [Mkdir rel_path], st)
                            | None \<Rightarrow>
                                (case add_watch_recursively fuel env cfg event_path st of
                                   None \<Rightarrow> None
                                 | Some (Inl e) \<Rightarrow> Some (Some e, [Mkdir rel_path], st)
                                 | Some (Inr st1) \<Rightarrow> Some (None, [Mkdir rel_path], st1)))
                         else transport_call sftp (Put rel_path) st)
                      else if ev_mask event AND IN_MODIFY \<noteq> 0 \<and> \<not> ev_mask event AND IN_ISDIR \<noteq> 0
                        then transport_call sftp (Put rel_path) st
                      else if ev_mask event AND (IN_DELETE OR IN_MOVED_FROM) \<noteq> 0 then
                        (if ev_mask event AND IN_ISDIR \<noteq> 0
                         then transport_call sftp (Rmdir rel_path) st
                         else transport_call sftp (Remove rel_path) st)
                      else Some (None, [], st))))"

text \<open>The \<^verbatim>\<open>for\<close> loop over one batch of events: an exception ends it.\<close>

fun process_events ::
  "nat \<Rightarrow> 'w os_env \<Rightarrow> sftp_session \<Rightarrow> config \<Rightarrow> string \<Rightarrow> inotify_event list \<Rightarrow> 'w worker_state
     \<Rightarrow> (exn option \<times> action list \<times> 'w worker_state) option" where
  "process_events fuel env sftp cfg local_path [] st = Some (None, [], st)"
| "process_events fuel env sftp cfg local_path (event # events) st =
     (case handle_event fuel env sftp cfg local_path event st of
        None \<Rightarrow> None
      | Some (Some e, calls, st1) \<Rightarrow> Some (Some e, calls, st1)
      | Some (None, calls, st1) \<Rightarrow>
          (case process_events fuel env sftp cfg local_path events st1 of
             None \<Rightarrow> None
           | Some (r, calls', st2) \<Rightarrow> Some (r, calls @ calls', st2)))"

text \<open>
  The inner \<^verbatim>\<open>while True\<close> loop, for the results of the successive calls of
  \<^verbatim>\<open>inotify.read\<close>: a batch of events, or the exception the call raises. When the list is
  used up with no exception the loop is still running.
\<close>

fun watch_loop ::
  "nat \<Rightarrow> 'w os_env \<Rightarrow> sftp_session \<Rightarrow> config \<Rightarrow> string \<Rightarrow> (exn + inotify_event list) list
     \<Rightarrow> 'w worker_state \<Rightarrow> (exn option \<times> action list \<times> 'w worker_state) option" where
  "watch_loop fuel env sftp cfg local_path [] st = Some (None, [], st)"
| "watch_loop fuel env sftp cfg local_path (Inl e # reads) st = Some (Some e, [], st)"
| "watch_loop fuel env sftp cfg local_path (Inr events # reads) st =
     (case process_events fuel env sftp cfg local_path events st of
        None \<Rightarrow> None
      | Some (Some e, calls, st1) \<Rightarrow> Some (Some e, calls, st1)
      | Some (None, calls, st1) \<Rightarrow>
          (case watch_loop fuel env sftp cfg local_path reads st1 of
             None \<Rightarrow> None
           | Some (r, calls', st2) \<Rightarrow> Some (r, calls @ calls', st2)))"

subsection \<open>The connection loop of \<^verbatim>\<open>sync_worker\<close>\<close>

text \<open>
  \<^verbatim>\<open>perform_initial_sync\<close>, given the map \<^verbatim>\<open>local_map\<close> its step 1 builds from
  \<^verbatim>\<open>os.walk\<close>: the remote scan, then the calls of step 4. An exception of the remote
  scan leaves the function; the calls of step 4 are each in a \<^verbatim>\<open>try\<close> block.
\<close>

definition perform_initial_sync ::
  "'w os_env \<Rightarrow> sftp_session \<Rightarrow> config \<Rightarrow> local_map \<Rightarrow> (exn + action list) option" where
  "perform_initial_sync env sftp cfg lm =
     (case walk_remote (sftp_listdir_attr sftp) (os_isdir env) (cfg_remote_path cfg)
             (cfg_exclude_patterns cfg) (cfg_source_code_only cfg) of
        None \<Rightarrow> None
      | Some (Inl e) \<Rightarrow> Some (Inl e)
      | Some (Inr rm) \<Rightarrow> Some (Inr (sync_actions lm rm (cfg_initial_sync_delete cfg))))"

text \<open>
  Where the worker is after one pass of the outer \<^verbatim>\<open>while True\<close> loop: it sleeps and
  connects again (\<open>Reconnect\<close>), it has left the loop on \<^verbatim>\<open>KeyboardInterrupt\<close>
  (\<open>Stopped\<close>), or it is still in the event loop (\<open>Watching\<close>).
\<close>

datatype phase = Reconnect | Stopped | Watching

definition after_exception :: "exn \<Rightarrow> phase" where
  "after_exception e = (if e = KeyboardInterrupt then Stopped else Reconnect)"

text \<open>
  One pass of the outer loop. \<open>conn\<close> is what \<^verbatim>\<open>sftp_client\<close> yields (\<open>None\<close> when the
  connection fails), \<open>lm\<close> the local map of this pass and \<open>reads\<close> what \<^verbatim>\<open>inotify.read\<close>
  returns while the connection lasts.
\<close>

definition worker_pass ::
  "nat \<Rightarrow> 'w os_env \<Rightarrow> config \<Rightarrow> string
     \<Rightarrow> sftp_session option \<times> local_map \<times> (exn + inotify_event list) list
     \<Rightarrow> 'w worker_state \<Rightarrow> (phase \<times> action list \<times> 'w worker_state) option" where
  "worker_pass fuel env cfg local_path input st =
     (case input of (conn, lm, reads) \<Rightarrow>
        (case conn of
           None \<Rightarrow> Some (Reconnect, [], st)
         | Some sftp \<Rightarrow>
             (case (if cfg_initial_sync_enabled cfg then perform_initial_sync env sftp cfg lm
                    else Some (Inr [])) of
                None \<Rightarrow> None
              | Some (Inl e) \<Rightarrow> Some (after_exception e, [], st)
              | Some (Inr calls) \<Rightarrow>
                  (case watch_loop fuel env sftp cfg local_path reads st of
                     None \<Rightarrow> None
                   | Some (None, calls', st1) \<Rightarrow> Some (Watching, calls @ calls', st1)
                   | Some (Some e, calls', st1) \<Rightarrow> Some (after_exception e, calls @ calls', st1)))))"

fun worker_loop ::
  "nat \<Rightarrow> 'w os_env \<Rightarrow> config \<Rightarrow> string
     \<Rightarrow> (sftp_session option \<times> local_map \<times> (exn + inotify_event list) list) list
     \<Rightarrow> 'w worker_state \<Rightarrow> (phase \<times> action list \<times> 'w worker_state) option" where
  "worker_loop fuel env cfg local_path [] st = Some (Reconnect, [], st)"
| "worker_loop fuel env cfg local_path (input # inputs) st =
     (case worker_pass fuel env cfg local_path input st of
        None \<Rightarrow> None
      | Some (Reconnect, calls, st1) \<Rightarrow>
          (case worker_loop fuel env cfg local_path inputs st1 of
             None \<Rightarrow> None
           | Some (ph, calls', st2) \<Rightarrow> Some (ph, calls @ calls', st2))
      | Some (ph, calls, st1) \<Rightarrow> Some (ph, calls, st1))"

text \<open>
  \<^verbatim>\<open>sync_worker\<close>: it starts with an empty \<^verbatim>\<open>wd_map\<close>, stops if the local path is not
  a directory, registers the watches of the local tree once, and enters the outer loop.
\<close>

definition sync_worker ::
  "nat \<Rightarrow> 'w os_env \<Rightarrow> config \<Rightarrow> 'w
     \<Rightarrow> (sftp_session option \<times> local_map \<times> (exn + inotify_event list) list) list
     \<Rightarrow> (phase \<times> action list \<times> 'w worker_state) option" where
  "sync_worker fuel env cfg w0 inputs =
     (let st0 = \<lparr>wd_map = [], inotify = w0\<rparr>;
          local_path = os_expanduser env (cfg_local_path cfg)
      in if \<not> os_isdir env local_path then Some (Stopped, [], st0)
         else
           (case add_watch_recursively fuel env cfg local_path st0 of
              None \<Rightarrow> None
            | Some (Inl e) \<Rightarrow> Some (Stopped, [], st0)
            | Some (Inr st1) \<Rightarrow> worker_loop fuel env cfg local_path inputs st1))"

section \<open>Two passes in a row\<close>

text \<open>
  The transport is not part of the program. To follow one pass by another, the model
  takes the effect of a call on the remote snapshot from what the transport does, for
  the paths on which the key of the local snapshot and the key of the next remote scan
  are the same string.

  A path is in normal form when it has no backslash and its components, separated by
  single slashes, are not empty and are neither \<^verbatim>\<open>.\<close> nor \<^verbatim>\<open>..\<close>. These are the
  keys \<^verbatim>\<open>os.path.relpath\<close> gives for the local tree and the keys the remote scan gives
  for a tree with plain names. For such a path \<open>p\<close> the program makes the call on
  \<^verbatim>\<open>os.path.join(remote_base, p)\<close>, the entry the call touches is the one at \<open>p\<close> below
  the remote base, and the next scan records it under \<open>p\<close>. For any other path (a local
  name with a backslash is uploaded under a key with a slash) the model gives no
  result.
\<close>

definition normal_path :: "string \<Rightarrow> bool" where
  "normal_path p =
     (CHR 0x5C \<notin> set p
      \<and> list_all (\<lambda>c. c \<noteq> [] \<and> c \<noteq> ''.'' \<and> c \<noteq> ''..'') (split_on CHR ''/'' p))"

text \<open>
  The effect of a call for a path in normal form: a \<^verbatim>\<open>mkdir\<close> that succeeds leaves a
  directory entry, a \<^verbatim>\<open>put\<close> that succeeds leaves a file entry with the size of the
  local file and the modification time the server gives it (the program does not set
  the remote time), \<^verbatim>\<open>remove\<close> and \<^verbatim>\<open>rmdir\<close> that succeed drop the entry, and a call
  that raises changes nothing: the program catches the exception, prints it and goes on.
  Which calls succeed, and the time the server gives, are parameters.
\<close>

definition uploaded_attr :: "string \<Rightarrow> int \<Rightarrow> int \<Rightarrow> sftp_attr" where
  "uploaded_attr rel_path sz t =
     \<lparr>filename = basename rel_path, st_mode = 33188, st_size = sz, st_mtime = t\<rparr>"

definition created_dir_attr :: "string \<Rightarrow> int \<Rightarrow> sftp_attr" where
  "created_dir_attr rel_path t =
     \<lparr>filename = basename rel_path, st_mode = 16877, st_size = 4096, st_mtime = t\<rparr>"

definition apply_normal ::
  "local_map \<Rightarrow> (action \<Rightarrow> bool) \<Rightarrow> (action \<Rightarrow> int) \<Rightarrow> remote_map \<Rightarrow> action \<Rightarrow> remote_map" where
  "apply_normal lm succeeds clock rm a =
     (if \<not> succeeds a then rm
      else
        (case a of
           Mkdir p \<Rightarrow> AList.update p (created_dir_attr p (clock a)) rm
         | Put p \<Rightarrow>
             (case map_of lm p of
                Some (LocalFile mtime sz) \<Rightarrow> AList.update p (uploaded_attr p sz (clock a)) rm
              | _ \<Rightarrow> rm)
         | Remove p \<Rightarrow> AList.delete p rm
         | Rmdir p \<Rightarrow> AList.delete p rm))"

definition apply_call ::
  "local_map \<Rightarrow> (action \<Rightarrow> bool) \<Rightarrow> (action \<Rightarrow> int) \<Rightarrow> remote_map \<Rightarrow> action
     \<Rightarrow> remote_map option" where
  "apply_call lm succeeds clock rm a =
     (if normal_path (path_of a) then Some (apply_normal lm succeeds clock rm a) else None)"

fun run_calls ::
  "local_map \<Rightarrow> (action \<Rightarrow> bool) \<Rightarrow> (action \<Rightarrow> int) \<Rightarrow> remote_map \<Rightarrow> action list
     \<Rightarrow> remote_map option" where
  "run_calls lm succeeds clock rm [] = Some rm"
| "run_calls lm succeeds clock rm (a # calls) =
     (case apply_call lm succeeds clock rm a of
        None \<Rightarrow> None
      | Some rm1 \<Rightarrow> run_calls lm succeeds clock rm1 calls)"

text \<open>The remote snapshot the next scan finds after a pass over \<open>lm\<close> and \<open>rm\<close>.\<close>

definition after_pass ::
  "local_map \<Rightarrow> (action \<Rightarrow> bool) \<Rightarrow> (action \<Rightarrow> int) \<Rightarrow> remote_map \<Rightarrow> bool
     \<Rightarrow> remote_map option" where
  "after_pass lm succeeds clock rm allow_delete =
     run_calls lm succeeds clock rm (sync_actions lm rm allow_delete)"

text \<open>
  For the proofs: the calls of a pass applied in turn, and the effect of one call on the
  entry of its own path.
\<close>

definition pass_effect ::
  "local_map \<Rightarrow> (action \<Rightarrow> bool) \<Rightarrow> (action \<Rightarrow> int) \<Rightarrow> remote_map \<Rightarrow> bool \<Rightarrow> remote_map" where
  "pass_effect lm succeeds clock rm allow_delete =
     foldl (apply_normal lm succeeds clock) rm (sync_actions lm rm allow_delete)"

definition effect_at ::
  "local_map \<Rightarrow> (action \<Rightarrow> bool) \<Rightarrow> (action \<Rightarrow> int) \<Rightarrow> action \<Rightarrow> sftp_attr option \<Rightarrow> sftp_attr option" where
  "effect_at lm succeeds clock a old =
     (if \<not> succeeds a then old
      else
        (case a of
           Mkdir p \<Rightarrow> Some (created_dir_attr p (clock a))
         | Put p \<Rightarrow>
             (case map_of lm p of
                Some (LocalFile mtime sz) \<Rightarrow> Some (uploaded_attr p sz (clock a))
              | _ \<Rightarrow> old)
         | Remove p \<Rightarrow> None
         | Rmdir p \<Rightarrow> None))"

section \<open>Example inputs\<close>

text \<open>
  Two states of the file system as \<^verbatim>\<open>os.path.isdir\<close> reports them: one with no
  directory at all, one whose only directory is \<open>d\<close>.
\<close>

definition no_directories :: "string \<Rightarrow> bool" where
  "no_directories p = False"

definition only_directory :: "string \<Rightarrow> string \<Rightarrow> bool" where
  "only_directory d p = (p = d)"

text \<open>
  A worker whose local root is \<^verbatim>\<open>/home/u/proj\<close>, run from \<^verbatim>\<open>/opt/tool\<close>. The local
  directories are the root and \<^verbatim>\<open>/home/u/proj/new\<close>; a relative path such as
  \<^verbatim>\<open>new/\<close> is resolved against the working directory and names no directory.
  \<^verbatim>\<open>add_watch\<close> hands out the descriptors 1, 2, 3, ... in turn.
\<close>

definition example_env :: "nat os_env" where
  "example_env =
     \<lparr>os_isdir = (\<lambda>p. p = ''/home/u/proj'' \<or> p = ''/home/u/proj/new''),
      os_exists = (\<lambda>p. p = ''/home/u/proj'' \<or> p = ''/home/u/proj/new''),
      os_listdir = (\<lambda>p. Inr []),
      os_getcwd = ''/opt/tool'',
      os_expanduser = (\<lambda>p. p),
      inotify_add_watch = (\<lambda>w p. (Inr (Suc w), Suc w))\<rparr>"

definition example_config :: "bool \<Rightarrow> config" where
  "example_config sco =
     \<lparr>cfg_local_path = ''/home/u/proj'', cfg_remote_path = ''/srv/mirror'',
      cfg_exclude_patterns = [''*.log''], cfg_source_code_only = sco,
      cfg_initial_sync_enabled = False, cfg_initial_sync_delete = False\<rparr>"

text \<open>
  A transport on which every call succeeds, and one that refuses the upload of
  \<^verbatim>\<open>a.py\<close> with \<^verbatim>\<open>PermissionError\<close> while every other call succeeds.
\<close>

definition healthy_sftp :: sftp_session where
  "healthy_sftp = \<lparr>sftp_listdir_attr = (\<lambda>p. Inr []), sftp_call = (\<lambda>a. None)\<rparr>"

definition denying_sftp :: sftp_session where
  "denying_sftp =
     \<lparr>sftp_listdir_attr = (\<lambda>p. Inr []),
      sftp_call = (\<lambda>a. if a = Put ''a.py'' then Some PermissionError else None)\<rparr>"

text \<open>The state after the watch of the root is registered, and a creation event.\<close>

definition root_watched :: "nat worker_state" where
  "root_watched = \<lparr>wd_map = [(1, ''/home/u/proj'')], inotify = 1\<rparr>"

definition created :: "bool \<Rightarrow> string \<Rightarrow> inotify_event" where
  "created dir n = \<lparr>ev_wd = 1, ev_mask = (if dir then IN_CREATE OR IN_ISDIR else IN_CREATE), ev_name = n\<rparr>"


text \<open>The state after the watch of \<^verbatim>\<open>/home/u/proj/new\<close> is registered as well.\<close>

definition new_watched :: "nat worker_state" where
  "new_watched = \<lparr>wd_map = [(1, ''/home/u/proj''), (2, ''/home/u/proj/new'')], inotify = 2\<rparr>"

text \<open>
  A remote tree under \<^verbatim>\<open>/srv/mirror\<close>: the directory \<^verbatim>\<open>build\<close>, which holds
  \<^verbatim>\<open>out.py\<close>, and the file \<^verbatim>\<open>main.py\<close>.
\<close>

definition build_attr :: sftp_attr where
  "build_attr = \<lparr>filename = ''build'', st_mode = 16877, st_size = 4096, st_mtime = 7\<rparr>"

definition main_attr :: sftp_attr where
  "main_attr = \<lparr>filename = ''main.py'', st_mode = 33188, st_size = 120, st_mtime = 7\<rparr>"

definition out_attr :: sftp_attr where
  "out_attr = \<lparr>filename = ''out.py'', st_mode = 33188, st_size = 64, st_mtime = 7\<rparr>"

definition example_listing :: "string \<Rightarrow> exn + sftp_attr list" where
  "example_listing p =
     (if p = ''/srv/mirror/'' then Inr [build_attr, main_attr]
      else if p = ''/srv/mirror/build'' then Inr [out_attr]
      else Inl FileNotFoundError)"

text \<open>Transports on which every call succeeds or fails, and a server clock.\<close>

definition every_call_succeeds :: "action \<Rightarrow> bool" where
  "every_call_succeeds a = True"

definition every_call_fails :: "action \<Rightarrow> bool" where
  "every_call_fails a = False"

definition server_time :: "int \<Rightarrow> action \<Rightarrow> int" where
  "server_time t a = t"


text \<open>
  A remote root that holds the directory \<^verbatim>\<open>build\<close> and, beside it, a file whose
  name is \<^verbatim>\<open>build\<close>, a backslash and \<^verbatim>\<open>out.py\<close> (a legal name on a POSIX server).
\<close>

definition stray_attr :: sftp_attr where
  "stray_attr =
     \<lparr>filename = ''build'' @ CHR 0x5C # ''out.py'', st_mode = 33188, st_size = 64, st_mtime = 7\<rparr>"

definition backslash_listing :: "string \<Rightarrow> exn + sftp_attr list" where
  "backslash_listing p =
     (if p = ''/srv/mirror/'' then Inr [build_attr, stray_attr] else Inl FileNotFoundError)"




text \<open>
  The remote root after a \<^verbatim>\<open>put\<close> on \<^verbatim>\<open>/srv/mirror//x\<close> into the empty root has
  succeeded: the server holds the file \<^verbatim>\<open>x\<close>.
\<close>

definition x_attr :: sftp_attr where
  "x_attr = \<lparr>filename = ''x'', st_mode = 33188, st_size = 5, st_mtime = 100\<rparr>"

definition uploaded_listing :: "string \<Rightarrow> exn + sftp_attr list" where
  "uploaded_listing p =
     (if p = ''/srv/mirror/'' then Inr [x_attr] else Inl FileNotFoundError)"

section \<open>Lemmas\<close>

subsection \<open>Order of calls\<close>

lemma before_in_iff: "before_in x y xs \<longleftrightarrow> (\<exists>us vs. xs = us @ x # vs \<and> y \<in> set vs)"
proof
  assume h: "before_in x y xs"
  let ?d = "dropWhile (\<lambda>z. z \<noteq> x) xs"
  from h have ne: "?d \<noteq> []" unfolding before_in_def by (cases ?d) auto
  then have "hd ?d = x" using hd_dropWhile[of "\<lambda>z. z \<noteq> x" xs] by simp
  with ne have d: "?d = x # tl ?d" by (cases ?d) auto
  have "xs = takeWhile (\<lambda>z. z \<noteq> x) xs @ ?d" by simp
  with d have "xs = takeWhile (\<lambda>z. z \<noteq> x) xs @ x # tl ?d" by metis
  moreover from h d have "y \<in> set (tl ?d)" by (simp add: before_in_def drop_Suc)
  ultimately show "\<exists>us vs. xs = us @ x # vs \<and> y \<in> set vs" by blast
next
  assume "\<exists>us vs. xs = us @ x # vs \<and> y \<in> set vs"
  then obtain us vs where xs: "xs = us @ x # vs" and y: "y \<in> set vs" by blast
  have "y \<in> set (drop 1 (dropWhile (\<lambda>z. z \<noteq> x) (us @ x # vs)))"
    using y by (induction us) auto
  then show "before_in x y xs" by (simp add: before_in_def xs)
qed

lemma sorted_split_between:
  fixes A :: "'a::linorder"
  assumes "sorted ps" "A \<in> set ps" "B \<in> set ps" "A < B"
  shows "\<exists>ps1 ps2. ps = ps1 @ A # ps2 \<and> B \<in> set ps2"
proof -
  from assms(2) obtain ps1 ps2 where ps: "ps = ps1 @ A # ps2" by (auto dest: split_list)
  have "B \<notin> set ps1"
  proof
    assume "B \<in> set ps1"
    with assms(1) ps have "B \<le> A" by (auto simp: sorted_append)
    with assms(4) show False by simp
  qed
  with assms(3,4) ps have "B \<in> set ps2" by auto
  with ps show ?thesis by blast
qed

lemma before_in_concat_map:
  fixes A :: "'a::linorder"
  assumes "sorted ps" "A \<in> set ps" "B \<in> set ps" "A < B" "f A = [x]" "y \<in> set (f B)"
  shows "before_in x y (concat (map f ps))"
proof -
  from sorted_split_between[OF assms(1-4)] obtain ps1 ps2
    where ps: "ps = ps1 @ A # ps2" and B: "B \<in> set ps2" by blast
  have "concat (map f ps) = concat (map f ps1) @ x # concat (map f ps2)"
    by (simp add: ps assms(5))
  moreover have "y \<in> set (concat (map f ps2))" using B assms(6) by auto
  ultimately show ?thesis unfolding before_in_iff by blast
qed

lemma before_in_concat_map_rev:
  fixes A :: "'a::linorder"
  assumes "sorted ps" "A \<in> set ps" "B \<in> set ps" "A < B" "f B = [y]" "x \<in> set (f A)"
  shows "before_in y x (concat (map f (rev ps)))"
proof -
  from sorted_split_between[OF assms(1-4)] obtain ps1 ps2
    where ps: "ps = ps1 @ A # ps2" and B: "B \<in> set ps2" by blast
  from B obtain q1 q2 where ps2: "ps2 = q1 @ B # q2" by (auto dest: split_list)
  have "concat (map f (rev ps)) =
        concat (map f (rev q2)) @ y # (concat (map f (rev q1)) @ f A @ concat (map f (rev ps1)))"
    by (simp add: ps ps2 assms(5))
  moreover have "x \<in> set (concat (map f (rev q1)) @ f A @ concat (map f (rev ps1)))"
    using assms(6) by simp
  ultimately show ?thesis unfolding before_in_iff by blast
qed

lemma before_in_append1: "before_in x y xs \<Longrightarrow> before_in x y (xs @ zs)"
proof -
  assume "before_in x y xs"
  then obtain us vs where "xs = us @ x # vs" "y \<in> set vs" unfolding before_in_iff by blast
  then have "xs @ zs = us @ x # (vs @ zs)" "y \<in> set (vs @ zs)" by simp_all
  then show ?thesis unfolding before_in_iff by blast
qed

lemma before_in_append2: "before_in x y xs \<Longrightarrow> before_in x y (zs @ xs)"
proof -
  assume "before_in x y xs"
  then obtain us vs where "xs = us @ x # vs" "y \<in> set vs" unfolding before_in_iff by blast
  then have "zs @ xs = (zs @ us) @ x # vs" "y \<in> set vs" by simp_all
  then show ?thesis unfolding before_in_iff by blast
qed

lemma ancestor_less: "ancestor a b \<Longrightarrow> a < b"
proof -
  assume h: "ancestor a b"
  then have "take (length (a @ ''/'')) b = a @ ''/''" by (simp add: ancestor_def startswith_def)
  then have "b = (a @ ''/'') @ drop (length (a @ ''/'')) b"
    by (metis append_take_drop_id)
  then obtain r where b: "b = a @ CHR ''/'' # r" by simp
  have "a < a @ CHR ''/'' # r" by (induction a) auto
  with b show ?thesis by simp
qed

subsection \<open>Which calls are made\<close>

lemma finite_path_sets [simp]:
  "finite (to_upload lm rm)" "finite (to_delete lm rm)" "finite (to_check lm rm)"
  by (simp_all add: to_upload_def to_delete_def to_check_def local_paths_def remote_paths_def)

lemma set_create_actions:
  "set (create_actions lm rm) = (\<Union>p \<in> to_upload lm rm. set (create_action lm p))"
  by (simp add: create_actions_def)

lemma set_update_actions:
  "set (update_actions lm rm) = (\<Union>p \<in> to_check lm rm. set (update_action lm rm p))"
  by (simp add: update_actions_def)

lemma set_delete_actions:
  "set (delete_actions lm rm) = (\<Union>p \<in> to_delete lm rm. set (delete_action rm p))"
  by (simp add: delete_actions_def)

lemma create_action_cases:
  "x \<in> set (create_action lm p) \<Longrightarrow> x = Mkdir p \<or> x = Put p"
  by (auto simp: create_action_def split: option.splits if_splits)

lemma update_action_cases:
  "x \<in> set (update_action lm rm p) \<Longrightarrow> x = Put p"
  by (auto simp: update_action_def split: option.splits if_splits)

lemma delete_action_cases:
  "x \<in> set (delete_action rm p) \<Longrightarrow> x = Rmdir p \<or> x = Remove p"
  by (auto simp: delete_action_def split: option.splits if_splits)

lemma map_of_in_paths:
  "map_of lm p = Some e \<Longrightarrow> p \<in> local_paths lm"
  "map_of rm p = Some a \<Longrightarrow> p \<in> remote_paths rm"
  by (auto simp: local_paths_def remote_paths_def dest: map_of_SomeD intro: rev_image_eqI)

lemma Put_in_sync_actions:
  assumes "map_of lm p = Some e" "map_of rm p = Some a"
  shows "Put p \<in> set (sync_actions lm rm d) \<longleftrightarrow> is_modified e a"
proof -
  from assms have lp: "p \<in> local_paths lm" and rp: "p \<in> remote_paths rm"
    by (auto dest: map_of_in_paths)
  have c: "Put p \<notin> set (create_actions lm rm)"
    using rp by (auto simp: set_create_actions to_upload_def dest: create_action_cases)
  have dl: "Put p \<notin> set (delete_actions lm rm)"
    by (auto simp: set_delete_actions dest: delete_action_cases)
  have u: "Put p \<in> set (update_actions lm rm) \<longleftrightarrow> is_modified e a"
  proof
    assume "Put p \<in> set (update_actions lm rm)"
    then obtain q where "Put p \<in> set (update_action lm rm q)"
      by (auto simp: set_update_actions)
    moreover from this have "q = p" by (auto dest: update_action_cases)
    ultimately show "is_modified e a" using assms
      by (auto simp: update_action_def split: if_splits)
  next
    assume "is_modified e a"
    then have "Put p \<in> set (update_action lm rm p)" using assms
      by (simp add: update_action_def)
    moreover have "p \<in> to_check lm rm" using lp rp by (simp add: to_check_def)
    ultimately show "Put p \<in> set (update_actions lm rm)"
      by (auto simp: set_update_actions)
  qed
  show ?thesis using c dl u by (simp add: sync_actions_def)
qed

lemma py_int_le: "x \<le> of_int n \<Longrightarrow> py_int x \<le> n"
  by (auto simp: py_int_def ceiling_le_iff floor_le_iff)

lemma py_int_of_int: "py_int (of_int n) = n"
  by (simp add: py_int_def)


lemma sync_action_of_common_path:
  assumes "x \<in> set (sync_actions lm rm d)" and "path_of x = p"
    and "p \<in> local_paths lm" and "p \<in> remote_paths rm"
  shows "x = Put p"
proof -
  from assms(1) consider "x \<in> set (create_actions lm rm)" | "x \<in> set (update_actions lm rm)"
    | "x \<in> set (delete_actions lm rm)"
    by (auto simp: sync_actions_def split: if_splits)
  then show ?thesis
  proof cases
    case 1
    then obtain q where "q \<in> to_upload lm rm" "x \<in> set (create_action lm q)"
      by (auto simp: set_create_actions)
    with assms(2,4) show ?thesis by (auto simp: to_upload_def dest: create_action_cases)
  next
    case 2
    then obtain q where "x \<in> set (update_action lm rm q)" by (auto simp: set_update_actions)
    with assms(2) show ?thesis by (auto dest: update_action_cases)
  next
    case 3
    then obtain q where "q \<in> to_delete lm rm" "x \<in> set (delete_action rm q)"
      by (auto simp: set_delete_actions)
    with assms(2,3) show ?thesis by (auto simp: to_delete_def dest: delete_action_cases)
  qed
qed

lemma distinct_paths_concat:
  assumes "distinct ps" and "\<And>p x. x \<in> set (f p) \<Longrightarrow> path_of x = p" and "\<And>p. length (f p) \<le> 1"
  shows "distinct (map path_of (concat (map f ps)))"
  using assms(1)
proof (induction ps)
  case Nil
  then show ?case by simp
next
  case (Cons q ps)
  have one: "distinct (map path_of (f q))"
    using assms(3)[of q] by (cases "f q") auto
  have "set (map path_of (f q)) \<inter> set (map path_of (concat (map f ps))) = {}"
    using Cons.prems assms(2) by fastforce
  with Cons one show ?case by simp
qed

lemma sync_actions_distinct: "distinct (map path_of (sync_actions lm rm d))"
proof -
  have c: "distinct (map path_of (create_actions lm rm))"
    unfolding create_actions_def
    by (rule distinct_paths_concat)
       (auto simp: create_action_def split: option.splits if_splits)
  have u: "distinct (map path_of (update_actions lm rm))"
    unfolding update_actions_def
    by (rule distinct_paths_concat)
       (auto simp: update_action_def split: option.splits if_splits)
  have dl: "distinct (map path_of (delete_actions lm rm))"
    unfolding delete_actions_def
    by (rule distinct_paths_concat)
       (auto simp: delete_action_def split: option.splits if_splits)
  have pc: "path_of ` set (create_actions lm rm) \<subseteq> to_upload lm rm"
    by (auto simp: set_create_actions dest: create_action_cases)
  have pu: "path_of ` set (update_actions lm rm) \<subseteq> to_check lm rm"
    by (auto simp: set_update_actions dest: update_action_cases)
  have pd: "path_of ` set (delete_actions lm rm) \<subseteq> to_delete lm rm"
    by (auto simp: set_delete_actions dest: delete_action_cases)
  have disj: "to_upload lm rm \<inter> to_check lm rm = {}" "to_upload lm rm \<inter> to_delete lm rm = {}"
    "to_check lm rm \<inter> to_delete lm rm = {}"
    by (auto simp: to_upload_def to_check_def to_delete_def)
  have cu: "path_of ` set (create_actions lm rm) \<inter> path_of ` set (update_actions lm rm) = {}"
    using pc pu disj by blast
  have cd: "path_of ` set (create_actions lm rm) \<inter> path_of ` set (delete_actions lm rm) = {}"
    using pc pd disj by blast
  have ud: "path_of ` set (update_actions lm rm) \<inter> path_of ` set (delete_actions lm rm) = {}"
    using pu pd disj by blast
  show ?thesis
    using c u dl cu cd ud by (simp add: sync_actions_def Int_Un_distrib Int_Un_distrib2)
qed

lemma sorted_paths [simp]: "sorted (sorted_list_of_set (S :: string set))"
  by simp


subsection \<open>Evaluation of the example inputs\<close>

lemma relpath_new:
  "relpath ''/opt/tool'' (path_join ''/home/u/proj'' ''new'') ''/home/u/proj'' = Inr ''new''"
  by code_simp

lemma new_dir_excluded:
  "is_excluded (os_isdir example_env) ''new/'' [''*.log''] True"
  "\<not> is_excluded (os_isdir example_env) ''new/'' [''*.log''] False"
  by code_simp+

lemma watch_new:
  "add_watch_recursively 5 example_env (example_config False) (path_join ''/home/u/proj'' ''new'')
     root_watched
   = Some (Inr \<lparr>wd_map = [(1, ''/home/u/proj''), (2, ''/home/u/proj/new'')], inotify = 2\<rparr>)"
  by code_simp

lemma mask_facts:
  "(IN_CREATE OR IN_ISDIR) AND IN_ISDIR \<noteq> 0"
  "(IN_CREATE OR IN_ISDIR) AND (IN_CREATE OR IN_MOVED_TO) \<noteq> 0"
  "IN_CREATE AND IN_ISDIR = 0"
  "IN_CREATE AND (IN_CREATE OR IN_MOVED_TO) \<noteq> 0"
  by (simp_all add: IN_CREATE_def IN_ISDIR_def IN_MOVED_TO_def)

lemma relpath_files:
  "relpath ''/opt/tool'' (path_join ''/home/u/proj'' ''a.py'') ''/home/u/proj'' = Inr ''a.py''"
  "relpath ''/opt/tool'' (path_join ''/home/u/proj'' ''b.py'') ''/home/u/proj'' = Inr ''b.py''"
  by code_simp+

lemma files_included:
  "\<not> is_excluded (os_isdir example_env) ''a.py'' [''*.log''] False"
  "\<not> is_excluded (os_isdir example_env) ''b.py'' [''*.log''] False"
  by code_simp+

lemma file_created:
  assumes "n = ''a.py'' \<or> n = ''b.py''"
  shows "handle_event fuel example_env sftp (example_config False) ''/home/u/proj''
     (created False n) root_watched = Some (sftp_call sftp (Put n), [Put n], root_watched)"
proof -
  have wd: "map_of (wd_map root_watched) (ev_wd (created False m)) = Some ''/home/u/proj''" for m
    by (simp add: root_watched_def created_def)
  have cwd: "os_getcwd example_env = ''/opt/tool''" by (simp add: example_env_def)
  have nm: "ev_name (created False m) = m" "ev_mask (created False m) = IN_CREATE" for m
    by (simp_all add: created_def)
  have cfg: "cfg_exclude_patterns (example_config False) = [''*.log'']"
    "cfg_source_code_only (example_config False) = False"
    by (simp_all add: example_config_def)
  from assms show ?thesis
    by (auto simp: handle_event_def transport_call_def wd cwd nm cfg relpath_files
        files_included mask_facts)
qed

lemma dir_dropped:
  "handle_event 5 example_env healthy_sftp (example_config True) ''/home/u/proj''
      (created True ''new'') root_watched = Some (None, [], root_watched)"
proof -
  have wd: "map_of (wd_map root_watched) (ev_wd (created True ''new'')) = Some ''/home/u/proj''"
    by (simp add: root_watched_def created_def)
  have cwd: "os_getcwd example_env = ''/opt/tool''" by (simp add: example_env_def)
  have nm: "ev_name (created True ''new'') = ''new''" "ev_mask (created True ''new'') = IN_CREATE OR IN_ISDIR"
    by (simp_all add: created_def)
  have cfg: "cfg_exclude_patterns (example_config sco) = [''*.log'']"
    "cfg_source_code_only (example_config sco) = sco" for sco
    by (simp_all add: example_config_def)
  show ?thesis
    by (simp add: handle_event_def wd cwd nm cfg relpath_new new_dir_excluded mask_facts)
qed

lemma dir_created:
  "handle_event 5 example_env healthy_sftp (example_config False) ''/home/u/proj''
      (created True ''new'') root_watched = Some (None, [Mkdir ''new''], new_watched)"
proof -
  have wd: "map_of (wd_map root_watched) (ev_wd (created True ''new'')) = Some ''/home/u/proj''"
    by (simp add: root_watched_def created_def)
  have cwd: "os_getcwd example_env = ''/opt/tool''" by (simp add: example_env_def)
  have nm: "ev_name (created True ''new'') = ''new''" "ev_mask (created True ''new'') = IN_CREATE OR IN_ISDIR"
    by (simp_all add: created_def)
  have cfg: "cfg_exclude_patterns (example_config sco) = [''*.log'']"
    "cfg_source_code_only (example_config sco) = sco" for sco
    by (simp_all add: example_config_def)
  have ok: "sftp_call healthy_sftp a = None" for a by (simp add: healthy_sftp_def)
  show ?thesis
    by (simp add: handle_event_def wd cwd nm cfg ok relpath_new new_dir_excluded watch_new
        mask_facts new_watched_def)
qed


subsection \<open>The watch registry\<close>













subsection \<open>The remote scan\<close>

lemma scan_entry_inv:
  assumes "kept_dir ls isdir base pats cur" and "ls (remote_full_path base cur) = Inr attrs"
    and "a \<in> set attrs" and "walk_inv ls isdir base pats sco (snd acc) (fst acc)"
  shows "walk_inv ls isdir base pats sco (snd (scan_entry isdir pats sco cur acc a))
           (fst (scan_entry isdir pats sco cur acc a))"
proof -
  let ?k = "rel_item_path cur (filename a)"
  let ?d = "S_ISDIR (st_mode a)"
  show ?thesis
  proof (cases "is_excluded isdir (if ?d then ?k @ ''/'' else ?k) pats (sco \<and> \<not> ?d)")
    case True
    then have "scan_entry isdir pats sco cur acc a = acc"
      by (simp add: scan_entry_def Let_def rel_item_path_def split: if_splits)
    with assms(4) show ?thesis by simp
  next
    case False
    then have rec: "recorded ls isdir base pats sco ?k"
      unfolding recorded_def using assms(1-3) by blast
    have kd: "kept_dir ls isdir base pats ?k" if "?d"
      using kept_child[OF assms(1-3) that] False that by simp
    from False have se: "scan_entry isdir pats sco cur acc a =
        (AList.update ?k a (fst acc), if ?d then snd acc @ [?k] else snd acc)"
      by (simp add: scan_entry_def Let_def rel_item_path_def split: if_splits)
    show ?thesis
      using assms(4) rec kd
      by (auto simp: se walk_inv_def dom_update)
  qed
qed

lemma scan_fold_inv:
  assumes "kept_dir ls isdir base pats cur" and "ls (remote_full_path base cur) = Inr attrs"
  shows "set as \<subseteq> set attrs \<Longrightarrow> walk_inv ls isdir base pats sco (snd acc) (fst acc) \<Longrightarrow>
     walk_inv ls isdir base pats sco (snd (foldl (scan_entry isdir pats sco cur) acc as))
       (fst (foldl (scan_entry isdir pats sco cur) acc as))"
proof (induction as arbitrary: acc)
  case Nil
  then show ?case by simp
next
  case (Cons a as)
  from Cons.prems have "a \<in> set attrs" by simp
  from scan_entry_inv[OF assms this Cons.prems(2)] Cons.IH Cons.prems(1)
  show ?case by simp
qed

lemma walk_loop_inv:
  assumes "walk_loop ls isdir base pats sco stack rm = Some res"
  shows "walk_inv ls isdir base pats sco stack rm \<longrightarrow>
         (\<forall>rm'. res = Inr rm' \<longrightarrow> (\<forall>k \<in> fst ` set rm'. recorded ls isdir base pats sco k))"
proof (rule walk_loop.raw_induct[where P = "\<lambda>ls isdir base pats sco stack rm res.
      walk_inv ls isdir base pats sco stack rm \<longrightarrow>
         (\<forall>rm'. res = Inr rm' \<longrightarrow> (\<forall>k \<in> fst ` set rm'. recorded ls isdir base pats sco k))",
      OF _ assms], goal_cases)
  case (1 walk ls isdir base pats sco stack rm res)
  show ?case
  proof (intro impI allI)
    fix rm'
    assume inv: "walk_inv ls isdir base pats sco stack rm" and res: "res = Inr rm'"
    show "\<forall>k \<in> fst ` set rm'. recorded ls isdir base pats sco k"
    proof (cases "stack = []")
      case True
      with 1(2) res inv show ?thesis by (simp add: walk_inv_def)
    next
      case ne: False
      let ?cur = "last stack"
      have kc: "kept_dir ls isdir base pats ?cur" using inv ne by (simp add: walk_inv_def)
      have inv1: "walk_inv ls isdir base pats sco (butlast stack) rm"
        using inv by (auto simp: walk_inv_def dest: in_set_butlastD)
      show ?thesis
      proof (cases "ls (remote_full_path base ?cur)")
        case (Inl e)
        with 1(2) ne res have "e = FileNotFoundError" and
          "walk ls isdir base pats sco (butlast stack) rm = Some (Inr rm')"
          by (auto simp: Let_def remote_full_path_def split: if_splits)
        with 1(1)[of ls isdir base pats sco "butlast stack" rm "Inr rm'"] inv1
        show ?thesis by simp
      next
        case (Inr attrs)
        obtain rm1 stack1 where f: "foldl (scan_entry isdir pats sco ?cur) (rm, butlast stack) attrs
            = (rm1, stack1)" by (cases "foldl (scan_entry isdir pats sco ?cur) (rm, butlast stack) attrs")
        from scan_fold_inv[OF kc Inr, of attrs sco "(rm, butlast stack)"] inv1 f
        have inv2: "walk_inv ls isdir base pats sco stack1 rm1" by simp
        from 1(2) ne res Inr f have "walk ls isdir base pats sco stack1 rm1 = Some (Inr rm')"
          by (simp add: Let_def remote_full_path_def)
        with 1(1)[of ls isdir base pats sco stack1 rm1 "Inr rm'"] inv2
        show ?thesis by simp
      qed
    qed
  qed
qed

lemma walk_remote_recorded:
  assumes "walk_remote ls isdir base pats sco = Some (Inr rm)" and "k \<in> fst ` set rm"
  shows "recorded ls isdir base pats sco k"
proof -
  have "walk_inv ls isdir base pats sco [[]] []"
    by (simp add: walk_inv_def kept_root)
  with walk_loop_inv[of ls isdir base pats sco "[[]]" "[]" "Inr rm"] assms
  show ?thesis by (auto simp: walk_remote_def)
qed

lemma replace_char_absent: "a \<notin> set s \<Longrightarrow> replace_char a b s = s"
  by (induction s) (auto simp: replace_char_def)

lemma endswith_slash: "endswith p ''/'' \<longleftrightarrow> p \<noteq> [] \<and> last p = CHR ''/''"
  by (cases p rule: rev_cases) (auto simp: endswith_def)

lemma plain_name_no_leading_slash: "plain_name n \<Longrightarrow> \<not> startswith n ''/''"
  by (cases n) (auto simp: plain_name_def startswith_def)

lemma rel_item_path_plain:
  assumes "plain_path cur" and "plain_name n"
  shows "rel_item_path cur n = (if cur = [] then n else cur @ ''/'' @ n)"
proof -
  have j: "path_join cur n = (if cur = [] then n else cur @ ''/'' @ n)"
    using assms by (auto simp: path_join_def plain_name_no_leading_slash endswith_slash plain_path_def)
  have "CHR 0x5C \<notin> set (path_join cur n)"
    using assms by (auto simp: j plain_path_def plain_name_def)
  then show ?thesis by (simp add: rel_item_path_def replace_char_absent j)
qed

lemma plain_path_child:
  assumes "plain_path cur" and "plain_name n"
  shows "plain_path (rel_item_path cur n)"
proof -
  from assms(2) have "last n \<in> set n" "CHR ''/'' \<notin> set n"
    by (simp_all add: plain_name_def)
  then have "last n \<noteq> CHR ''/''" by metis
  with assms show ?thesis
    by (auto simp: rel_item_path_plain plain_path_def plain_name_def)
qed

lemma last_separator_unique:
  assumes "xs @ c # ys = xs' @ c # ys'" and "c \<notin> set ys" and "c \<notin> set ys'"
  shows "xs = xs' \<and> ys = ys'"
proof -
  have "takeWhile (\<lambda>x. x \<noteq> c) (rev (xs @ c # ys)) = rev ys"
    using assms(2) by (auto simp: takeWhile_tail takeWhile_eq_all_conv)
  moreover have "takeWhile (\<lambda>x. x \<noteq> c) (rev (xs' @ c # ys')) = rev ys'"
    using assms(3) by (auto simp: takeWhile_tail takeWhile_eq_all_conv)
  ultimately have "ys = ys'" using assms(1) by (metis rev_rev_ident)
  with assms(1) show ?thesis by simp
qed

lemma rel_item_path_inject:
  assumes "plain_path cur" "plain_path cur'" "plain_name n" "plain_name n'"
    and "rel_item_path cur n = rel_item_path cur' n'"
  shows "cur = cur' \<and> n = n'"
proof -
  have n: "CHR ''/'' \<notin> set n" "CHR ''/'' \<notin> set n'" using assms(3,4) by (simp_all add: plain_name_def)
  from assms(5) have e: "(if cur = [] then n else cur @ ''/'' @ n)
      = (if cur' = [] then n' else cur' @ ''/'' @ n')"
    by (simp add: rel_item_path_plain assms(1-4))
  show ?thesis
  proof (cases "cur = []"; cases "cur' = []")
    assume "cur = []" "cur' = []"
    with e show ?thesis by simp
  next
    assume "cur = []" "cur' \<noteq> []"
    with e have "n = cur' @ CHR ''/'' # n'" by simp
    then have "CHR ''/'' \<in> set n" by simp
    with n show ?thesis by simp
  next
    assume "cur \<noteq> []" "cur' = []"
    with e have "n' = cur @ CHR ''/'' # n" by simp
    then have "CHR ''/'' \<in> set n'" by simp
    with n show ?thesis by simp
  next
    assume "cur \<noteq> []" "cur' \<noteq> []"
    with e have "cur @ CHR ''/'' # n = cur' @ CHR ''/'' # n'" by simp
    from last_separator_unique[OF this n] show ?thesis .
  qed
qed

lemma ancestor_of_child:
  assumes "plain_path cur" and "plain_name n" and "ancestor d (rel_item_path cur n)"
  shows "d = cur \<or> ancestor d cur"
proof -
  have n: "CHR ''/'' \<notin> set n" using assms(2) by (simp add: plain_name_def)
  let ?k = "rel_item_path cur n"
  from assms(3) have d: "d \<noteq> []" and pre: "take (Suc (length d)) ?k = d @ ''/''"
    and len: "Suc (length d) < length ?k"
    by (simp_all add: ancestor_def startswith_def)
  from pre have k: "?k = (d @ ''/'') @ drop (Suc (length d)) ?k"
    by (metis append_take_drop_id)
  show ?thesis
  proof (cases "cur = []")
    case True
    then have "?k = n" using rel_item_path_plain[OF assms(1,2)] by simp
    with k have "CHR ''/'' \<in> set n" by (metis in_set_conv_decomp append_assoc append_Cons append_Nil)
    with n show ?thesis by simp
  next
    case False
    then have kc: "?k = cur @ CHR ''/'' # n" using rel_item_path_plain[OF assms(1,2)] by simp
    with k have "cur @ CHR ''/'' # n = d @ CHR ''/'' # drop (Suc (length d)) ?k" by simp
    then consider (a) us where "cur = d @ us" "us @ CHR ''/'' # n = CHR ''/'' # drop (Suc (length d)) ?k"
      | (b) us where "cur @ us = d" "CHR ''/'' # n = us @ CHR ''/'' # drop (Suc (length d)) ?k"
      by (auto simp: append_eq_append_conv2)
    then show ?thesis
    proof cases
      case a
      show ?thesis
      proof (cases us)
        case Nil
        with a show ?thesis by simp
      next
        case (Cons u us')
        with a have u: "u = CHR ''/''" by simp
        with a Cons have cur: "cur = d @ CHR ''/'' # us'" by simp
        have "us' \<noteq> []"
        proof
          assume "us' = []"
          with cur have "last cur = CHR ''/''" by simp
          with assms(1) False show False by (simp add: plain_path_def)
        qed
        with cur d have "ancestor d cur"
          by (auto simp: ancestor_def startswith_def)
        then show ?thesis ..
      qed
    next
      case b
      show ?thesis
      proof (cases us)
        case Nil
        with b show ?thesis by simp
      next
        case (Cons u us')
        with b have "\<exists>r. n = us' @ CHR ''/'' # r" by auto
        then have "CHR ''/'' \<in> set n" by auto
        with n show ?thesis by simp
      qed
    qed
  qed
qed


lemma listing_names:
  assumes "plain_listings ls" and "ls p = Inr attrs" and "a \<in> set attrs"
  shows "plain_name (filename a)"
    and "a' \<in> set attrs \<Longrightarrow> filename a = filename a' \<Longrightarrow> a = a'"
proof -
  from assms(1,2) have d: "distinct (map filename attrs)"
    and p: "\<forall>a \<in> set attrs. plain_name (filename a)"
    unfolding plain_listings_def by blast+
  from p assms(3) show "plain_name (filename a)" by blast
  from d have "inj_on filename (set attrs)" by (simp add: distinct_map)
  with assms(3) show "a' \<in> set attrs \<Longrightarrow> filename a = filename a' \<Longrightarrow> a = a'"
    by (auto dest: inj_onD)
qed

lemma kept_dir_plain:
  assumes "plain_listings ls"
  shows "kept_dir ls isdir base pats c \<Longrightarrow> plain_path c"
proof (induction rule: kept_dir.induct)
  case kept_root
  show ?case by (simp add: plain_path_def)
next
  case (kept_child cur attrs a)
  then show ?case using listing_names(1)[OF assms] by (auto intro: plain_path_child)
qed

lemma remote_dir_plain:
  assumes "plain_listings ls"
  shows "remote_dir ls base c \<Longrightarrow> plain_path c"
proof (induction rule: remote_dir.induct)
  case remote_root
  show ?case by (simp add: plain_path_def)
next
  case (remote_child cur attrs a)
  then show ?case using listing_names(1)[OF assms] by (auto intro: plain_path_child)
qed

lemma entry_of_remote_dir:
  assumes pl: "plain_listings ls" and rd: "remote_dir ls base d" and d: "d \<noteq> []"
    and cur: "plain_path cur" and l: "ls (remote_full_path base cur) = Inr attrs"
    and a: "a \<in> set attrs" and k: "rel_item_path cur (filename a) = d"
  shows "S_ISDIR (st_mode a)"
  using rd
proof (cases rule: remote_dir.cases)
  case remote_root
  with d show ?thesis by simp
next
  case (remote_child cur' attrs' a')
  have "plain_path cur'" using remote_dir_plain[OF pl remote_child(2)] .
  moreover have "plain_name (filename a)" using listing_names(1)[OF pl l a] .
  moreover have "plain_name (filename a')"
    using listing_names(1)[OF pl remote_child(3,4)] .
  moreover have "rel_item_path cur (filename a) = rel_item_path cur' (filename a')"
    using k remote_child(1) by simp
  ultimately have e: "cur = cur'" "filename a = filename a'"
    using rel_item_path_inject[OF cur] by blast+
  with l remote_child(3) have "attrs' = attrs" by simp
  with remote_child(4) have "a' \<in> set attrs" by simp
  from listing_names(2)[OF pl l a this e(2)] remote_child(5) show ?thesis by simp
qed

lemma kept_dir_not_under_excluded:
  assumes pl: "plain_listings ls" and rd: "remote_dir ls base d" and d: "d \<noteq> []"
    and ex: "is_excluded isdir (d @ ''/'') pats False"
  shows "kept_dir ls isdir base pats c \<Longrightarrow> c \<noteq> d \<and> \<not> ancestor d c"
proof (induction rule: kept_dir.induct)
  case kept_root
  show ?case using d by (simp add: ancestor_def)
next
  case (kept_child cur attrs a)
  have pc: "plain_path cur" using kept_dir_plain[OF pl kept_child(1)] .
  have pn: "plain_name (filename a)" using listing_names(1)[OF pl kept_child(2,3)] .
  have "rel_item_path cur (filename a) \<noteq> d" using kept_child(5) ex by auto
  moreover have "\<not> ancestor d (rel_item_path cur (filename a))"
    using ancestor_of_child[OF pc pn] kept_child.IH by blast
  ultimately show ?case by simp
qed

lemma example_paths:
  "remote_full_path ''/srv/mirror'' [] = ''/srv/mirror/''"
  "rel_item_path [] ''build'' = ''build''"
  "rel_item_path [] ''main.py'' = ''main.py''"
  by code_simp+

lemma example_filter:
  "is_excluded no_directories ''build/'' [''build/''] False"
  "\<not> is_excluded no_directories ''main.py'' [''build/''] True"
  by code_simp+

lemma example_modes: "S_ISDIR (st_mode build_attr)" "\<not> S_ISDIR (st_mode main_attr)"
  by (simp_all add: S_ISDIR_def build_attr_def main_attr_def)

lemma example_scan:
  "foldl (scan_entry no_directories [''build/''] True []) ([], []) [build_attr, main_attr]
   = ([(''main.py'', main_attr)], [])"
proof -
  have n: "filename build_attr = ''build''" "filename main_attr = ''main.py''"
    by (simp_all add: build_attr_def main_attr_def)
  have p: "replace_char CHR 0x5C CHR ''/'' (path_join [] ''build'') = ''build''"
    "replace_char CHR 0x5C CHR ''/'' (path_join [] ''main.py'') = ''main.py''"
    using example_paths(2,3) by (simp_all add: rel_item_path_def)
  show ?thesis
    by (simp add: scan_entry_def Let_def n p example_modes example_filter)
qed

lemma example_walk:
  "walk_remote example_listing no_directories ''/srv/mirror'' [''build/''] True
   = Some (Inr [(''main.py'', main_attr)])"
proof -
  have fin: "walk_loop example_listing no_directories ''/srv/mirror'' [''build/''] True []
      [(''main.py'', main_attr)] = Some (Inr [(''main.py'', main_attr)])"
    by (subst walk_loop.simps) simp
  have l: "example_listing (replace_char CHR 0x5C CHR ''/'' (path_join ''/srv/mirror'' []))
      = Inr [build_attr, main_attr]"
    using example_paths(1) by (simp add: remote_full_path_def example_listing_def)
  have sc: "scan_entry no_directories [''build/''] True []
      (scan_entry no_directories [''build/''] True [] ([], []) build_attr) main_attr
      = ([(''main.py'', main_attr)], [])"
    using example_scan by simp
  show ?thesis
    unfolding walk_remote_def
    by (subst walk_loop.simps) (simp add: l sc fin)
qed

lemma example_plain: "plain_listings example_listing"
  by (auto simp: plain_listings_def example_listing_def plain_name_def build_attr_def
      main_attr_def out_attr_def split: if_splits)

lemma example_remote_dir: "remote_dir example_listing ''/srv/mirror'' ''build''"
proof -
  have "example_listing (remote_full_path ''/srv/mirror'' []) = Inr [build_attr, main_attr]"
    by (simp add: example_paths example_listing_def)
  from remote_child[of example_listing "''/srv/mirror''" "[]" "[build_attr, main_attr]" build_attr,
      OF remote_root this _ example_modes(1)]
  have "remote_dir example_listing ''/srv/mirror'' (rel_item_path [] (filename build_attr))"
    by simp
  then show ?thesis by (simp add: build_attr_def example_paths)
qed

subsection \<open>The effect of a pass\<close>

lemma apply_normal_other:
  "q \<noteq> path_of a \<Longrightarrow> map_of (apply_normal lm ok clock rm a) q = map_of rm q"
  by (cases a) (auto simp: apply_normal_def update_conv' delete_conv'
      split: option.splits local_entry.splits)

lemma apply_normal_at:
  "map_of (apply_normal lm ok clock rm a) (path_of a) = effect_at lm ok clock a (map_of rm (path_of a))"
  by (cases a) (auto simp: apply_normal_def effect_at_def update_conv' delete_conv'
      split: option.splits local_entry.splits)

lemma foldl_apply_other:
  "\<forall>a \<in> set acts. path_of a \<noteq> q \<Longrightarrow>
   map_of (foldl (apply_normal lm ok clock) rm acts) q = map_of rm q"
  by (induction acts arbitrary: rm) (auto simp: apply_normal_other)

lemma foldl_apply_at:
  assumes "distinct (map path_of acts)" and "a \<in> set acts"
  shows "map_of (foldl (apply_normal lm ok clock) rm acts) (path_of a)
         = effect_at lm ok clock a (map_of rm (path_of a))"
proof -
  from assms(2) obtain us vs where acts: "acts = us @ a # vs" by (auto dest: split_list)
  with assms(1) have u: "\<forall>b \<in> set us. path_of b \<noteq> path_of a"
    and v: "\<forall>b \<in> set vs. path_of b \<noteq> path_of a" by (auto simp: image_iff)
  have "map_of (foldl (apply_normal lm ok clock) rm acts) (path_of a)
        = map_of (apply_normal lm ok clock (foldl (apply_normal lm ok clock) rm us) a) (path_of a)"
    by (simp add: acts foldl_apply_other[OF v])
  also have "\<dots> = effect_at lm ok clock a (map_of (foldl (apply_normal lm ok clock) rm us) (path_of a))"
    by (rule apply_normal_at)
  also have "\<dots> = effect_at lm ok clock a (map_of rm (path_of a))"
    by (simp add: foldl_apply_other[OF u])
  finally show ?thesis .
qed

lemma pass_effect_untouched:
  assumes "\<forall>a \<in> set (sync_actions lm rm d). path_of a \<noteq> q"
  shows "map_of (pass_effect lm ok clock rm d) q = map_of rm q"
  unfolding pass_effect_def using assms by (rule foldl_apply_other)

lemma pass_effect_at:
  assumes "a \<in> set (sync_actions lm rm d)"
  shows "map_of (pass_effect lm ok clock rm d) (path_of a)
         = effect_at lm ok clock a (map_of rm (path_of a))"
  unfolding pass_effect_def using sync_actions_distinct assms by (rule foldl_apply_at)


lemma in_paths_iff:
  "p \<in> local_paths lm \<longleftrightarrow> map_of lm p \<noteq> None"
  "p \<in> remote_paths rm \<longleftrightarrow> map_of rm p \<noteq> None"
  by (simp_all add: local_paths_def remote_paths_def map_of_eq_None_iff)

lemma sync_actions_paths:
  assumes "a \<in> set (sync_actions lm rm d)"
  shows "path_of a \<in> local_paths lm \<union> remote_paths rm"
proof -
  from assms consider "a \<in> set (create_actions lm rm)" | "a \<in> set (update_actions lm rm)"
    | "a \<in> set (delete_actions lm rm)"
    by (auto simp: sync_actions_def split: if_splits)
  then show ?thesis
  proof cases
    case 1
    then show ?thesis
      by (auto simp: set_create_actions to_upload_def dest: create_action_cases)
  next
    case 2
    then show ?thesis
      by (auto simp: set_update_actions to_check_def dest: update_action_cases)
  next
    case 3
    then show ?thesis
      by (auto simp: set_delete_actions to_delete_def dest: delete_action_cases)
  qed
qed

lemma pass_effect_local:
  assumes ok: "\<forall>a \<in> set (sync_actions lm rm d). ok a"
    and clk: "\<forall>p mtime sz. Put p \<in> set (sync_actions lm rm d) \<longrightarrow>
               map_of lm p = Some (LocalFile mtime sz) \<longrightarrow> py_int mtime \<le> clock (Put p) + 1"
    and e: "map_of lm p = Some e"
  shows "\<exists>a. map_of (pass_effect lm ok clock rm d) p = Some a \<and> \<not> is_modified e a"
proof (cases "map_of rm p")
  case None
  then have up: "p \<in> to_upload lm rm" using e by (simp add: to_upload_def in_paths_iff)
  let ?a = "if entry_is_dir e then Mkdir p else Put p"
  have "?a \<in> set (create_action lm p)" using e by (simp add: create_action_def)
  with up have "?a \<in> set (create_actions lm rm)"
    unfolding set_create_actions by blast
  then have mem: "?a \<in> set (sync_actions lm rm d)" by (simp add: sync_actions_def)
  from pass_effect_at[OF mem, of ok clock]
  have r: "map_of (pass_effect lm ok clock rm d) p = effect_at lm ok clock ?a (map_of rm p)"
    by (simp split: if_splits)
  show ?thesis
  proof (cases e)
    case LocalDir
    with r ok mem show ?thesis by (auto simp: effect_at_def is_modified_def)
  next
    case (LocalFile mtime sz)
    with mem have "Put p \<in> set (sync_actions lm rm d)" by simp
    with clk e LocalFile have "py_int mtime \<le> clock (Put p) + 1" by blast
    with r ok mem e LocalFile show ?thesis
      by (auto simp: effect_at_def is_modified_def uploaded_attr_def)
  qed
next
  case (Some a0)
  then have chk: "p \<in> to_check lm rm" using e by (simp add: to_check_def in_paths_iff)
  show ?thesis
  proof (cases "is_modified e a0")
    case True
    then obtain mtime sz where lf: "e = LocalFile mtime sz"
      by (cases e) (auto simp: is_modified_def)
    have "Put p \<in> set (update_action lm rm p)"
      using e Some True by (simp add: update_action_def)
    with chk have "Put p \<in> set (update_actions lm rm)"
      unfolding set_update_actions by blast
    then have mem: "Put p \<in> set (sync_actions lm rm d)" by (simp add: sync_actions_def)
    with clk e lf have c: "py_int mtime \<le> clock (Put p) + 1" by blast
    from pass_effect_at[OF mem, of ok clock] ok mem e lf c show ?thesis
      by (auto simp: effect_at_def is_modified_def uploaded_attr_def)
  next
    case False
    have "\<forall>a \<in> set (sync_actions lm rm d). path_of a \<noteq> p"
    proof (intro ballI notI)
      fix a assume a: "a \<in> set (sync_actions lm rm d)" and "path_of a = p"
      with e Some have "a = Put p"
        by (auto intro: sync_action_of_common_path simp: in_paths_iff)
      with a Put_in_sync_actions[OF e Some, of d] False show False by simp
    qed
    from pass_effect_untouched[OF this, of ok clock] Some False show ?thesis by simp
  qed
qed

lemma pass_effect_extra:
  assumes ok: "\<forall>a \<in> set (sync_actions lm rm True). ok a" and "map_of lm q = None"
  shows "map_of (pass_effect lm ok clock rm True) q = None"
proof (cases "map_of rm q")
  case None
  have "\<forall>a \<in> set (sync_actions lm rm True). path_of a \<noteq> q"
  proof (intro ballI notI)
    fix a assume "a \<in> set (sync_actions lm rm True)" and "path_of a = q"
    with sync_actions_paths[of a lm rm True] None assms(2) show False
      by (simp add: in_paths_iff)
  qed
  from pass_effect_untouched[OF this, of ok clock] None show ?thesis by simp
next
  case (Some a0)
  then have dl: "q \<in> to_delete lm rm" using assms(2) by (simp add: to_delete_def in_paths_iff)
  let ?a = "if S_ISDIR (st_mode a0) then Rmdir q else Remove q"
  have "?a \<in> set (delete_action rm q)" using Some by (simp add: delete_action_def)
  with dl have "?a \<in> set (delete_actions lm rm)"
    unfolding set_delete_actions by blast
  then have mem: "?a \<in> set (sync_actions lm rm True)" by (simp add: sync_actions_def)
  from pass_effect_at[OF mem, of ok clock] ok mem show ?thesis
    by (auto simp: effect_at_def split: if_splits)
qed

lemma concat_map_empty: "(\<forall>x \<in> set xs. f x = []) \<Longrightarrow> concat (map f xs) = []"
  by simp

lemma pass_effect_idempotent:
  assumes "\<forall>a \<in> set (sync_actions lm rm d). succeeds a"
    and "\<forall>p mtime sz. Put p \<in> set (sync_actions lm rm d) \<longrightarrow>
           map_of lm p = Some (LocalFile mtime sz) \<longrightarrow> py_int mtime \<le> clock (Put p) + 1"
  shows "sync_actions lm (pass_effect lm succeeds clock rm d) d = []"
proof -
  let ?rm = "pass_effect lm succeeds clock rm d"
  have loc: "\<exists>a. map_of ?rm p = Some a \<and> \<not> is_modified e a" if "map_of lm p = Some e" for p e
    using pass_effect_local[OF assms that] .
  have "local_paths lm \<subseteq> remote_paths ?rm"
  proof
    fix p assume "p \<in> local_paths lm"
    then obtain e where "map_of lm p = Some e" by (auto simp: in_paths_iff)
    from loc[OF this] show "p \<in> remote_paths ?rm" by (auto simp: in_paths_iff)
  qed
  then have up: "to_upload lm ?rm = {}" by (auto simp: to_upload_def)
  have c: "create_actions lm ?rm = []" by (simp add: create_actions_def up)
  have u: "update_actions lm ?rm = []"
    unfolding update_actions_def
  proof (rule concat_map_empty, rule ballI)
    fix p assume "p \<in> set (sorted_list_of_set (to_check lm ?rm))"
    then have "p \<in> to_check lm ?rm" by simp
    then have "p \<in> local_paths lm" by (simp add: to_check_def)
    then obtain e where e: "map_of lm p = Some e" by (auto simp: in_paths_iff)
    from loc[OF e] e show "update_action lm ?rm p = []" by (auto simp: update_action_def)
  qed
  have dl: "delete_actions lm ?rm = []" if d
  proof -
    have "remote_paths ?rm \<subseteq> local_paths lm"
    proof
      fix q assume q: "q \<in> remote_paths ?rm"
      show "q \<in> local_paths lm"
      proof (rule ccontr)
        assume "q \<notin> local_paths lm"
        then have "map_of lm q = None" by (simp add: in_paths_iff)
        from pass_effect_extra[OF _ this, of rm succeeds clock] assms(1) that q
        show False by (simp add: in_paths_iff)
      qed
    qed
    then have "to_delete lm ?rm = {}" by (auto simp: to_delete_def)
    then show ?thesis by (simp add: delete_actions_def)
  qed
  show ?thesis using c u dl by (simp add: sync_actions_def)
qed

lemma example_first_pass:
  "sync_actions [(''a'', LocalDir), (''a/x.py'', LocalFile 100 5)]
     [(''old.log'', \<lparr>filename = ''old.log'', st_mode = 33188, st_size = 9, st_mtime = 50\<rparr>)] True
   = [Mkdir ''a'', Put ''a/x.py'', Remove ''old.log'']"
proof -
  let ?lm = "[(''a'', LocalDir), (''a/x.py'', LocalFile 100 5)]"
  let ?rm = "[(''old.log'', \<lparr>filename = ''old.log'', st_mode = 33188, st_size = 9, st_mtime = 50\<rparr>)]"
  have up: "to_upload ?lm ?rm = {''a'', ''a/x.py''}"
    and ch: "to_check ?lm ?rm = {}" and dl: "to_delete ?lm ?rm = {''old.log''}"
    by (auto simp: to_upload_def to_check_def to_delete_def local_paths_def remote_paths_def)
  have "sorted_list_of_set {''a'', ''a/x.py''} = [''a'', ''a/x.py'']"
    by code_simp
  then show ?thesis
    by (simp add: sync_actions_def create_actions_def update_actions_def delete_actions_def
        up ch dl create_action_def delete_action_def S_ISDIR_def)
qed

subsection \<open>The paths only the remote snapshot has\<close>


lemma stray_path:
  "replace_char CHR 0x5C CHR ''/'' (path_join [] (''build'' @ CHR 0x5C # ''out.py'')) = ''build/out.py''"
  by code_simp

lemma stray_filter:
  "\<not> is_excluded no_directories ''build/out.py'' [''build/''] True"
  by code_simp

lemma stray_scan:
  "scan_entry no_directories [''build/''] True []
      (scan_entry no_directories [''build/''] True [] ([], []) build_attr) stray_attr
   = ([(''build/out.py'', stray_attr)], [])"
proof -
  have n: "filename build_attr = ''build''" "filename stray_attr = ''build'' @ CHR 0x5C # ''out.py''"
    by (simp_all add: build_attr_def stray_attr_def)
  have m: "\<not> S_ISDIR (st_mode stray_attr)" by (simp add: S_ISDIR_def stray_attr_def)
  have p: "replace_char CHR 0x5C CHR ''/'' (path_join [] ''build'') = ''build''"
    using example_paths(2) by (simp add: rel_item_path_def)
  show ?thesis
    using stray_path
    by (simp add: scan_entry_def Let_def n m p example_modes example_filter stray_filter)
qed

lemma stray_walk:
  "walk_remote backslash_listing no_directories ''/srv/mirror'' [''build/''] True
   = Some (Inr [(''build/out.py'', stray_attr)])"
proof -
  have fin: "walk_loop backslash_listing no_directories ''/srv/mirror'' [''build/''] True []
      [(''build/out.py'', stray_attr)] = Some (Inr [(''build/out.py'', stray_attr)])"
    by (subst walk_loop.simps) simp
  have l: "backslash_listing (replace_char CHR 0x5C CHR ''/'' (path_join ''/srv/mirror'' []))
      = Inr [build_attr, stray_attr]"
    using example_paths(1) by (simp add: remote_full_path_def backslash_listing_def)
  show ?thesis
    unfolding walk_remote_def
    by (subst walk_loop.simps) (simp add: l stray_scan fin)
qed

lemma stray_remote_dir: "remote_dir backslash_listing ''/srv/mirror'' ''build''"
proof -
  have "backslash_listing (remote_full_path ''/srv/mirror'' []) = Inr [build_attr, stray_attr]"
    by (simp add: example_paths backslash_listing_def)
  from remote_child[of backslash_listing "''/srv/mirror''" "[]" "[build_attr, stray_attr]" build_attr,
      OF remote_root this _ example_modes(1)]
  have "remote_dir backslash_listing ''/srv/mirror'' (rel_item_path [] (filename build_attr))"
    by simp
  then show ?thesis by (simp add: build_attr_def example_paths)
qed





lemma run_calls_normal:
  "\<forall>a \<in> set calls. normal_path (path_of a) \<Longrightarrow>
   run_calls lm ok clock rm calls = Some (foldl (apply_normal lm ok clock) rm calls)"
  by (induction calls arbitrary: rm) (simp_all add: apply_call_def)

lemma after_pass_normal:
  assumes "\<forall>p \<in> local_paths lm \<union> remote_paths rm. normal_path p"
  shows "after_pass lm ok clock rm d = Some (pass_effect lm ok clock rm d)"
proof -
  have "\<forall>a \<in> set (sync_actions lm rm d). normal_path (path_of a)"
    using assms sync_actions_paths[of _ lm rm d] by blast
  then show ?thesis
    unfolding after_pass_def pass_effect_def by (rule run_calls_normal)
qed

lemma example_normal: "normal_path ''a''" "normal_path ''a/x.py''" "normal_path ''old.log''"
  "normal_path ''f.txt''"
  by code_simp+

lemma example_after_pass:
  "after_pass [(''a'', LocalDir), (''a/x.py'', LocalFile 100 5)] every_call_succeeds
     (server_time 100)
     [(''old.log'', \<lparr>filename = ''old.log'', st_mode = 33188, st_size = 9, st_mtime = 50\<rparr>)] True
   = Some [(''a'', \<lparr>filename = ''a'', st_mode = 16877, st_size = 4096, st_mtime = 100\<rparr>),
           (''a/x.py'', \<lparr>filename = ''x.py'', st_mode = 33188, st_size = 5, st_mtime = 100\<rparr>)]"
proof -
  have b: "basename ''a'' = ''a''" "basename ''a/x.py'' = ''x.py''" by code_simp+
  show ?thesis
    by (simp add: after_pass_def example_first_pass apply_call_def apply_normal_def
        example_normal every_call_succeeds_def server_time_def uploaded_attr_def
        created_dir_attr_def b)
qed

lemma backslash_upload:
  "sync_actions [(CHR 0x5C # ''x'', LocalFile 100 5)] [] True = [Put (CHR 0x5C # ''x'')]"
  "remote_full_path ''/srv/mirror'' (CHR 0x5C # ''x'') = ''/srv/mirror//x''"
proof -
  show "sync_actions [(CHR 0x5C # ''x'', LocalFile 100 5)] [] True = [Put (CHR 0x5C # ''x'')]"
    by (simp add: sync_actions_def create_actions_def update_actions_def delete_actions_def
        to_upload_def to_check_def to_delete_def local_paths_def remote_paths_def
        create_action_def)
  show "remote_full_path ''/srv/mirror'' (CHR 0x5C # ''x'') = ''/srv/mirror//x''"
    by code_simp
qed

lemma backslash_rescan:
  "walk_remote uploaded_listing no_directories ''/srv/mirror'' [] False = Some (Inr [(''x'', x_attr)])"
proof -
  have fin: "walk_loop uploaded_listing no_directories ''/srv/mirror'' [] False []
      [(''x'', x_attr)] = Some (Inr [(''x'', x_attr)])"
    by (subst walk_loop.simps) simp
  have l: "uploaded_listing (replace_char CHR 0x5C CHR ''/'' (path_join ''/srv/mirror'' []))
      = Inr [x_attr]"
    using example_paths(1) by (simp add: remote_full_path_def uploaded_listing_def)
  have p: "replace_char CHR 0x5C CHR ''/'' (path_join [] ''x'') = ''x''" by code_simp
  have e: "\<not> is_excluded no_directories ''x'' [] False" by code_simp
  have sc: "scan_entry no_directories [] False [] ([], []) x_attr = ([(''x'', x_attr)], [])"
    using p e by (simp add: scan_entry_def Let_def x_attr_def S_ISDIR_def)
  show ?thesis
    unfolding walk_remote_def
    by (subst walk_loop.simps) (simp add: l sc fin)
qed

lemma backslash_second_pass:
  "sync_actions [(CHR 0x5C # ''x'', LocalFile 100 5)] [(''x'', x_attr)] True
   = [Put (CHR 0x5C # ''x''), Remove ''x'']"
  by (simp add: sync_actions_def create_actions_def update_actions_def delete_actions_def
      to_upload_def to_check_def to_delete_def local_paths_def remote_paths_def
      create_action_def delete_action_def x_attr_def S_ISDIR_def)

section \<open>The claims\<close>

text \<open>
  C2, as the program has it. For a file that both snapshots hold, the program uploads it
  again if and only if its local modification time, truncated to whole seconds by
  \<^verbatim>\<open>int\<close>, is greater than the remote time plus one, or the sizes differ. With equal
  sizes, a local time equal to or older than the remote one gives no call at all for the
  path, and a local time two seconds newer gives the upload.
\<close>

theorem update_condition:
  assumes "map_of lm p = Some (LocalFile mtime sz)" and "map_of rm p = Some a"
  shows "(Put p \<in> set (sync_actions lm rm d) \<longleftrightarrow>
            py_int mtime > st_mtime a + 1 \<or> sz \<noteq> st_size a)
       \<and> (sz = st_size a \<and> mtime \<le> of_int (st_mtime a) \<longrightarrow>
            (\<forall>x \<in> set (sync_actions lm rm d). path_of x \<noteq> p))
       \<and> (sz = st_size a \<and> mtime = of_int (st_mtime a) + 2 \<longrightarrow>
            Put p \<in> set (sync_actions lm rm d))"
proof -
  have iff: "Put p \<in> set (sync_actions lm rm d) \<longleftrightarrow>
              py_int mtime > st_mtime a + 1 \<or> sz \<noteq> st_size a"
    using Put_in_sync_actions[OF assms, of d] by (simp add: is_modified_def)
  have older: "\<forall>x \<in> set (sync_actions lm rm d). path_of x \<noteq> p"
    if "sz = st_size a" and "mtime \<le> of_int (st_mtime a)"
  proof
    fix x assume x: "x \<in> set (sync_actions lm rm d)"
    show "path_of x \<noteq> p"
    proof
      assume "path_of x = p"
      with x assms have "x = Put p"
        by (auto intro: sync_action_of_common_path dest: map_of_in_paths)
      with x iff that py_int_le[OF that(2)] show False by simp
    qed
  qed
  have newer: "Put p \<in> set (sync_actions lm rm d)"
    if "sz = st_size a" and "mtime = of_int (st_mtime a) + 2"
  proof -
    have "mtime = of_int (st_mtime a + 2)" using that(2) by simp
    then have "py_int mtime = st_mtime a + 2" by (simp only: py_int_of_int)
    then show ?thesis using iff by simp
  qed
  from iff older newer show ?thesis by blast
qed

theorem update_condition_witness:
  "Put ''f.txt'' \<in> set (sync_actions [(''f.txt'', LocalFile 102 5)]
       [(''f.txt'', \<lparr>filename = ''f.txt'', st_mode = 33188, st_size = 5, st_mtime = 100\<rparr>)] False)
   \<and> Put ''f.txt'' \<notin> set (sync_actions [(''f.txt'', LocalFile 100 5)]
       [(''f.txt'', \<lparr>filename = ''f.txt'', st_mode = 33188, st_size = 5, st_mtime = 100\<rparr>)] False)"
  using update_condition[of "[(''f.txt'', LocalFile 102 5)]" "''f.txt''" 102 5
      "[(''f.txt'', \<lparr>filename = ''f.txt'', st_mode = 33188, st_size = 5, st_mtime = 100\<rparr>)]"
      "\<lparr>filename = ''f.txt'', st_mode = 33188, st_size = 5, st_mtime = 100\<rparr>" False]
    update_condition[of "[(''f.txt'', LocalFile 100 5)]" "''f.txt''" 100 5
      "[(''f.txt'', \<lparr>filename = ''f.txt'', st_mode = 33188, st_size = 5, st_mtime = 100\<rparr>)]"
      "\<lparr>filename = ''f.txt'', st_mode = 33188, st_size = 5, st_mtime = 100\<rparr>" False]
  by (simp add: py_int_def)

text \<open>
  C2 as it is written compares the modification times themselves. A local time of
  101.5 s is more than one second newer than a remote time of 100 s, and the sizes are
  equal, yet no upload is made: \<^verbatim>\<open>int(101.5) > 100 + 1\<close> is false.
\<close>

theorem fractional_mtime_counterexample:
  "(203 / 2 :: rat) > of_int 100 + 1
   \<and> Put ''f.txt'' \<notin> set (sync_actions [(''f.txt'', LocalFile (203 / 2) 5)]
       [(''f.txt'', \<lparr>filename = ''f.txt'', st_mode = 33188, st_size = 5, st_mtime = 100\<rparr>)] False)"
  using Put_in_sync_actions[of "[(''f.txt'', LocalFile (203 / 2) 5)]" "''f.txt''" "LocalFile (203 / 2) 5"
      "[(''f.txt'', \<lparr>filename = ''f.txt'', st_mode = 33188, st_size = 5, st_mtime = 100\<rparr>)]"
      "\<lparr>filename = ''f.txt'', st_mode = 33188, st_size = 5, st_mtime = 100\<rparr>" False]
  by (simp add: is_modified_def py_int_def)

text \<open>
  C5, the create order. When \<open>A\<close> and \<open>B\<close> are both to be created (present in the local
  snapshot, absent from the remote one), \<open>A\<close> is a directory and a slash-delimited
  ancestor of \<open>B\<close>, the call that creates directory \<open>A\<close> is made before the call that
  creates or uploads \<open>B\<close>. No path has two calls, so the positions are unambiguous.
\<close>

theorem create_order:
  assumes "A \<in> to_upload lm rm" and "B \<in> to_upload lm rm" and "ancestor A B"
    and "map_of lm A = Some LocalDir" and "map_of lm B = Some e"
  shows "before_in (Mkdir A) (if entry_is_dir e then Mkdir B else Put B) (sync_actions lm rm d)
       \<and> distinct (map path_of (sync_actions lm rm d))"
proof -
  let ?ps = "sorted_list_of_set (to_upload lm rm)"
  have "before_in (Mkdir A) (if entry_is_dir e then Mkdir B else Put B)
          (concat (map (create_action lm) ?ps))"
  proof (rule before_in_concat_map[where A = A and B = B])
    show "sorted ?ps" by simp
    show "A \<in> set ?ps" "B \<in> set ?ps" using assms(1,2) by simp_all
    show "A < B" using assms(3) by (rule ancestor_less)
    show "create_action lm A = [Mkdir A]" using assms(4) by (simp add: create_action_def)
    show "(if entry_is_dir e then Mkdir B else Put B) \<in> set (create_action lm B)"
      using assms(5) by (simp add: create_action_def)
  qed
  then have "before_in (Mkdir A) (if entry_is_dir e then Mkdir B else Put B) (sync_actions lm rm d)"
    by (simp add: sync_actions_def create_actions_def before_in_append1)
  then show ?thesis by (simp add: sync_actions_distinct)
qed

theorem create_order_witness:
  "before_in (Mkdir ''a'') (Put ''a/x.py'')
     (sync_actions [(''a/x.py'', LocalFile 100 5), (''a'', LocalDir)] [] False)
   \<and> sync_actions [(''a/x.py'', LocalFile 100 5), (''a'', LocalDir)] [] False
       = [Mkdir ''a'', Put ''a/x.py'']"
proof -
  have "sync_actions [(''a/x.py'', LocalFile 100 5), (''a'', LocalDir)] [] False
        = [Mkdir ''a'', Put ''a/x.py'']"
    by code_simp
  moreover have "before_in (Mkdir ''a'') (Put ''a/x.py'')
     (sync_actions [(''a/x.py'', LocalFile 100 5), (''a'', LocalDir)] [] False)"
    using create_order[of "''a''" "[(''a/x.py'', LocalFile 100 5), (''a'', LocalDir)]" "[]"
        "''a/x.py''" "LocalFile 100 5" False]
    by (simp add: to_upload_def local_paths_def remote_paths_def ancestor_def startswith_def)
  ultimately show ?thesis by simp
qed

text \<open>
  C6, the delete order. When deletion is allowed, \<open>A\<close> and \<open>B\<close> are both to be removed
  (present in the remote snapshot, absent from the local one), \<open>A\<close> is a remote directory
  and a slash-delimited ancestor of \<open>B\<close>, the call that removes \<open>B\<close> is made before the
  call that removes directory \<open>A\<close>.
\<close>

theorem delete_order:
  assumes "A \<in> to_delete lm rm" and "B \<in> to_delete lm rm" and "ancestor A B"
    and "map_of rm A = Some a" and "S_ISDIR (st_mode a)" and "map_of rm B = Some b"
  shows "before_in (if S_ISDIR (st_mode b) then Rmdir B else Remove B) (Rmdir A)
           (sync_actions lm rm True)
       \<and> distinct (map path_of (sync_actions lm rm True))"
proof -
  let ?ps = "sorted_list_of_set (to_delete lm rm)"
  have "before_in (if S_ISDIR (st_mode b) then Rmdir B else Remove B) (Rmdir A)
          (concat (map (delete_action rm) (rev ?ps)))"
  proof (rule before_in_concat_map_rev[where A = A and B = B])
    show "sorted ?ps" by simp
    show "A \<in> set ?ps" "B \<in> set ?ps" using assms(1,2) by simp_all
    show "A < B" using assms(3) by (rule ancestor_less)
    show "delete_action rm B = [if S_ISDIR (st_mode b) then Rmdir B else Remove B]"
      using assms(6) by (simp add: delete_action_def)
    show "Rmdir A \<in> set (delete_action rm A)"
      using assms(4,5) by (simp add: delete_action_def)
  qed
  then have "before_in (if S_ISDIR (st_mode b) then Rmdir B else Remove B) (Rmdir A)
          (delete_actions lm rm)" by (simp add: delete_actions_def)
  then have "before_in (if S_ISDIR (st_mode b) then Rmdir B else Remove B) (Rmdir A)
          (sync_actions lm rm True)"
    unfolding sync_actions_def by (simp add: before_in_append2)
  then show ?thesis by (simp add: sync_actions_distinct)
qed

theorem delete_order_witness:
  "before_in (Remove ''stale/file'') (Rmdir ''stale'')
     (sync_actions []
        [(''stale'', \<lparr>filename = ''stale'', st_mode = 16877, st_size = 4096, st_mtime = 7\<rparr>),
         (''stale/file'', \<lparr>filename = ''file'', st_mode = 33188, st_size = 3, st_mtime = 7\<rparr>)]
        True)"
  using delete_order[of "''stale''" "[]"
      "[(''stale'', \<lparr>filename = ''stale'', st_mode = 16877, st_size = 4096, st_mtime = 7\<rparr>),
        (''stale/file'', \<lparr>filename = ''file'', st_mode = 33188, st_size = 3, st_mtime = 7\<rparr>)]"
      "''stale/file''"
      "\<lparr>filename = ''stale'', st_mode = 16877, st_size = 4096, st_mtime = 7\<rparr>"
      "\<lparr>filename = ''file'', st_mode = 33188, st_size = 3, st_mtime = 7\<rparr>"]
  by (simp add: to_delete_def local_paths_def remote_paths_def ancestor_def startswith_def
      S_ISDIR_def)



text \<open>
  C4, as the program has it. The result of \<^verbatim>\<open>is_excluded\<close> is a function of the path,
  the patterns, the source-code-only flag and the answer of \<^verbatim>\<open>os.path.isdir\<close> for that
  path: two states of the file system that agree on whether the path is a directory give
  the same result, and with the flag off the file system does not matter at all.
\<close>

theorem is_excluded_file_system:
  "(isdir1 path = isdir2 path \<longrightarrow>
      is_excluded isdir1 path pats sco = is_excluded isdir2 path pats sco)
   \<and> is_excluded isdir1 path pats False = is_excluded isdir2 path pats False"
  by (simp add: is_excluded_def)

theorem is_excluded_file_system_witness:
  "no_directories ''notes.txt'' = only_directory ''src'' ''notes.txt''
   \<and> is_excluded no_directories ''notes.txt'' [''*.log''] True
       = is_excluded (only_directory ''src'') ''notes.txt'' [''*.log''] True"
  using is_excluded_file_system[of no_directories "''notes.txt''" "only_directory ''src''" "[''*.log'']" True]
  by (simp add: no_directories_def only_directory_def)

text \<open>
  C4 as it is written says the result does not depend on the state of the file system.
  With source-code-only on and no pattern, the path \<^verbatim>\<open>build\<close> is excluded when no
  directory of that name exists and included when one does.
\<close>

theorem is_excluded_hidden_state_counterexample:
  "is_excluded no_directories ''build'' [] True
   \<and> \<not> is_excluded (only_directory ''build'') ''build'' [] True"
  by code_simp


text \<open>
  C1 at a failing input. The event loop passes the source-code-only flag to
  \<^verbatim>\<open>is_excluded\<close> for directories too. For a creation event of the directory
  \<^verbatim>\<open>new\<close> under the watched root, the path checked is \<^verbatim>\<open>new/\<close>, which is no directory
  for \<^verbatim>\<open>os.path.isdir\<close> (the worker does not run in the local root) and has the empty
  extension: with the flag on the event is dropped, no \<^verbatim>\<open>mkdir\<close> is made and no
  watch is added; with the flag off the same event creates the remote directory and
  registers the watch.
\<close>

theorem directory_event_dropped:
  "handle_event 5 example_env healthy_sftp (example_config True) ''/home/u/proj''
      (created True ''new'') root_watched = Some (None, [], root_watched)
   \<and> handle_event 5 example_env healthy_sftp (example_config False) ''/home/u/proj''
      (created True ''new'') root_watched
      = Some (None, [Mkdir ''new''],
              \<lparr>wd_map = [(1, ''/home/u/proj''), (2, ''/home/u/proj/new'')], inotify = 2\<rparr>)"
  by (simp add: dir_dropped dir_created new_watched_def)

text \<open>
  C3 at a failing input. Two files are created in one batch of events and the transport
  refuses the upload of the first with \<^verbatim>\<open>PermissionError\<close>. The exception leaves the
  event loop: the event of the second file is not handled, and the pass of the outer loop
  ends in the handler that sleeps and connects again. On a transport where every call
  succeeds the same batch uploads both files.
\<close>

theorem failed_upload_leaves_event_loop:
  "process_events 5 example_env denying_sftp (example_config False) ''/home/u/proj''
      [created False ''a.py'', created False ''b.py''] root_watched
      = Some (Some PermissionError, [Put ''a.py''], root_watched)
   \<and> worker_pass 5 example_env (example_config False) ''/home/u/proj''
        (Some denying_sftp, [], [Inr [created False ''a.py'', created False ''b.py'']]) root_watched
      = Some (Reconnect, [Put ''a.py''], root_watched)
   \<and> process_events 5 example_env healthy_sftp (example_config False) ''/home/u/proj''
      [created False ''a.py'', created False ''b.py''] root_watched
      = Some (None, [Put ''a.py'', Put ''b.py''], root_watched)"
proof -
  have cfg: "\<not> cfg_initial_sync_enabled (example_config False)"
    by (simp add: example_config_def)
  have calls: "sftp_call denying_sftp (Put ''a.py'') = Some PermissionError"
    "sftp_call healthy_sftp (Put ''a.py'') = None" "sftp_call healthy_sftp (Put ''b.py'') = None"
    by (simp_all add: denying_sftp_def healthy_sftp_def)
  show ?thesis
    by (simp add: file_created worker_pass_def after_exception_def cfg calls)
qed




text \<open>
  C10, as the program has it. Let the listings of the remote side have plain names (no
  name empty, none with a slash or a backslash, none twice in a listing). When
  \<^verbatim>\<open>walk_remote\<close> returns a snapshot and \<open>d\<close> is a remote directory that the filter
  excludes, no key of the snapshot is \<open>d\<close> and no key lies beneath \<open>d\<close>.
\<close>

theorem excluded_directory_pruned:
  assumes "walk_remote ls isdir base pats sco = Some (Inr rm)"
    and "plain_listings ls"
    and "remote_dir ls base d" and "d \<noteq> []"
    and "is_excluded isdir (d @ ''/'') pats False"
  shows "\<forall>k \<in> fst ` set rm. k \<noteq> d \<and> \<not> ancestor d k"
proof
  fix k assume "k \<in> fst ` set rm"
  from walk_remote_recorded[OF assms(1) this] obtain cur attrs a where
    kc: "kept_dir ls isdir base pats cur" and l: "ls (remote_full_path base cur) = Inr attrs"
    and a: "a \<in> set attrs" and k: "k = rel_item_path cur (filename a)"
    and ne: "\<not> is_excluded isdir (if S_ISDIR (st_mode a) then k @ ''/'' else k) pats
              (sco \<and> \<not> S_ISDIR (st_mode a))"
    unfolding recorded_def by blast
  have pc: "plain_path cur" using kept_dir_plain[OF assms(2) kc] .
  have pn: "plain_name (filename a)" using listing_names(1)[OF assms(2) l a] .
  have "k \<noteq> d"
  proof
    assume "k = d"
    with entry_of_remote_dir[OF assms(2,3,4) pc l a] k have "S_ISDIR (st_mode a)" by simp
    with ne \<open>k = d\<close> assms(5) show False by simp
  qed
  moreover have "\<not> ancestor d k"
    using ancestor_of_child[OF pc pn] kept_dir_not_under_excluded[OF assms(2-5) kc] k by blast
  ultimately show "k \<noteq> d \<and> \<not> ancestor d k" by simp
qed

theorem excluded_directory_pruned_witness:
  "walk_remote example_listing no_directories ''/srv/mirror'' [''build/''] True
     = Some (Inr [(''main.py'', main_attr)])
   \<and> plain_listings example_listing
   \<and> remote_dir example_listing ''/srv/mirror'' ''build''
   \<and> is_excluded no_directories ''build/'' [''build/''] False
   \<and> ''main.py'' \<noteq> ''build'' \<and> \<not> ancestor ''build'' ''main.py''"
  using excluded_directory_pruned[OF example_walk example_plain example_remote_dir]
    example_walk example_plain example_remote_dir example_filter(1)
  by simp

text \<open>
  C10 as it is written has no condition on the names. The scan replaces backslashes in
  the key of an entry by slashes, so a file of the root whose name is \<^verbatim>\<open>build\<close>, a
  backslash and \<^verbatim>\<open>out.py\<close> is recorded under the key \<^verbatim>\<open>build/out.py\<close>: a path
  beneath the directory \<^verbatim>\<open>build\<close>, which the filter excludes and the scan never enters.
\<close>

theorem backslash_name_counterexample:
  "walk_remote backslash_listing no_directories ''/srv/mirror'' [''build/''] True
     = Some (Inr [(''build/out.py'', stray_attr)])
   \<and> remote_dir backslash_listing ''/srv/mirror'' ''build''
   \<and> is_excluded no_directories ''build/'' [''build/''] False
   \<and> ancestor ''build'' ''build/out.py''"
  using stray_walk stray_remote_dir example_filter(1)
  by (simp add: ancestor_def startswith_def)

text \<open>
  C8, as the program has it. Let every path of the two snapshots be in normal form, so
  that a local path and its remote counterpart have the same key. When every call of
  the first pass succeeds and the server gives each uploaded file a modification time
  not more than one second behind the local one (truncated to whole seconds), the first
  pass leaves a remote snapshot for which a second pass over the same local snapshot
  makes no call.
\<close>

theorem second_pass_empty:
  assumes "\<forall>a \<in> set (sync_actions lm rm d). succeeds a"
    and "\<forall>p mtime sz. Put p \<in> set (sync_actions lm rm d) \<longrightarrow>
           map_of lm p = Some (LocalFile mtime sz) \<longrightarrow> py_int mtime \<le> clock (Put p) + 1"
    and "\<forall>p \<in> local_paths lm \<union> remote_paths rm. normal_path p"
  shows "\<exists>rm2. after_pass lm succeeds clock rm d = Some rm2 \<and> sync_actions lm rm2 d = []"
  using after_pass_normal[OF assms(3), of succeeds clock d]
    pass_effect_idempotent[OF assms(1,2)]
  by simp

theorem second_pass_empty_witness:
  "sync_actions [(''a'', LocalDir), (''a/x.py'', LocalFile 100 5)]
     [(''old.log'', \<lparr>filename = ''old.log'', st_mode = 33188, st_size = 9, st_mtime = 50\<rparr>)] True
     = [Mkdir ''a'', Put ''a/x.py'', Remove ''old.log'']
   \<and> after_pass [(''a'', LocalDir), (''a/x.py'', LocalFile 100 5)] every_call_succeeds
       (server_time 100)
       [(''old.log'', \<lparr>filename = ''old.log'', st_mode = 33188, st_size = 9, st_mtime = 50\<rparr>)] True
     = Some [(''a'', \<lparr>filename = ''a'', st_mode = 16877, st_size = 4096, st_mtime = 100\<rparr>),
             (''a/x.py'', \<lparr>filename = ''x.py'', st_mode = 33188, st_size = 5, st_mtime = 100\<rparr>)]
   \<and> sync_actions [(''a'', LocalDir), (''a/x.py'', LocalFile 100 5)]
       [(''a'', \<lparr>filename = ''a'', st_mode = 16877, st_size = 4096, st_mtime = 100\<rparr>),
        (''a/x.py'', \<lparr>filename = ''x.py'', st_mode = 33188, st_size = 5, st_mtime = 100\<rparr>)] True
     = []"
  using second_pass_empty[of "[(''a'', LocalDir), (''a/x.py'', LocalFile 100 5)]"
      "[(''old.log'', \<lparr>filename = ''old.log'', st_mode = 33188, st_size = 9, st_mtime = 50\<rparr>)]"
      True every_call_succeeds "server_time 100"]
    example_first_pass example_after_pass
  by (simp add: every_call_succeeds_def server_time_def py_int_def local_paths_def
      remote_paths_def example_normal)

text \<open>
  C8 as it is written promises an empty second pass for every pair of snapshots.
  When the upload of the first pass fails (the exception is caught and printed), the
  remote side is unchanged and the second pass makes the same upload again. When the
  upload succeeds on a server whose clock is behind the file's local time, the second
  pass finds the local file newer and uploads it again. And a local file whose name is
  a backslash and \<^verbatim>\<open>x\<close> is uploaded to \<^verbatim>\<open>/srv/mirror//x\<close>, which the server holds as
  \<^verbatim>\<open>x\<close>: the next scan records the key \<^verbatim>\<open>x\<close>, and the second pass uploads the
  local file again and, with deletion allowed, removes \<^verbatim>\<open>x\<close>.
\<close>

theorem second_pass_counterexample:
  "after_pass [(''f.txt'', LocalFile 100 5)] every_call_fails (server_time 100) [] False = Some []
   \<and> sync_actions [(''f.txt'', LocalFile 100 5)] [] False = [Put ''f.txt'']
   \<and> after_pass [(''f.txt'', LocalFile 100 5)] every_call_succeeds (server_time 50) [] False
       = Some [(''f.txt'', \<lparr>filename = ''f.txt'', st_mode = 33188, st_size = 5, st_mtime = 50\<rparr>)]
   \<and> sync_actions [(''f.txt'', LocalFile 100 5)]
       [(''f.txt'', \<lparr>filename = ''f.txt'', st_mode = 33188, st_size = 5, st_mtime = 50\<rparr>)] False
       = [Put ''f.txt'']
   \<and> sync_actions [(CHR 0x5C # ''x'', LocalFile 100 5)] [] True = [Put (CHR 0x5C # ''x'')]
   \<and> remote_full_path ''/srv/mirror'' (CHR 0x5C # ''x'') = ''/srv/mirror//x''
   \<and> walk_remote uploaded_listing no_directories ''/srv/mirror'' [] False
       = Some (Inr [(''x'', x_attr)])
   \<and> sync_actions [(CHR 0x5C # ''x'', LocalFile 100 5)] [(''x'', x_attr)] True
       = [Put (CHR 0x5C # ''x''), Remove ''x'']"
proof -
  have first: "sync_actions [(''f.txt'', LocalFile 100 5)] [] False = [Put ''f.txt'']"
    by (simp add: sync_actions_def create_actions_def update_actions_def to_upload_def
        to_check_def local_paths_def remote_paths_def create_action_def)
  have failed: "after_pass [(''f.txt'', LocalFile 100 5)] every_call_fails (server_time 100) [] False
      = Some []"
    by (simp add: after_pass_def first apply_call_def apply_normal_def every_call_fails_def
        example_normal)
  have behind: "after_pass [(''f.txt'', LocalFile 100 5)] every_call_succeeds (server_time 50) [] False
      = Some [(''f.txt'', \<lparr>filename = ''f.txt'', st_mode = 33188, st_size = 5, st_mtime = 50\<rparr>)]"
    by (simp add: after_pass_def first apply_call_def apply_normal_def every_call_succeeds_def
        server_time_def uploaded_attr_def basename_def example_normal)
  have again: "sync_actions [(''f.txt'', LocalFile 100 5)]
      [(''f.txt'', \<lparr>filename = ''f.txt'', st_mode = 33188, st_size = 5, st_mtime = 50\<rparr>)] False
      = [Put ''f.txt'']"
    by (simp add: sync_actions_def create_actions_def update_actions_def to_upload_def
        to_check_def local_paths_def remote_paths_def update_action_def is_modified_def
        py_int_def)
  show ?thesis
    by (simp add: first failed behind again backslash_upload backslash_rescan
        backslash_second_pass)
qed

end
